theory Spec2Isabelle
  imports Main "HOL-Library.Word" "HOL-Library.AList"
begin

section \<open>Constants and schemas of elf.py\<close>

type_synonym byte = "8 word"

text \<open>A scheme is the Python list of \<open>(name, (typename, count))\<close> tuples.\<close>

type_synonym scheme = "(string \<times> (string \<times> nat)) list"

definition ELFMAG :: "byte list" where
  "ELFMAG = [0x7F, 0x45, 0x4C, 0x46]"

definition SELFMAG :: nat where
  "SELFMAG = 4"

definition ELFCLASS32 :: int where
  "ELFCLASS32 = 1"

definition ELFCLASS64 :: int where
  "ELFCLASS64 = 2"

definition ELFDATA2LSB :: int where
  "ELFDATA2LSB = 1"

definition ELFDATA2MSB :: int where
  "ELFDATA2MSB = 2"

definition EV_CURRENT :: int where
  "EV_CURRENT = 1"

definition Elf_Ident :: scheme where
  "Elf_Ident =
    [(''ELF_MAG'',       (''char'', SELFMAG)),
     (''EI_CLASS'',      (''uint8'', 1)),
     (''EI_DATA'',       (''uint8'', 1)),
     (''EI_VERSION'',    (''uint8'', 1)),
     (''EI_OSABI'',      (''uint8'', 1)),
     (''EI_ABIVERSION'', (''uint8'', 1)),
     (''EI_PAD'',        (''char'', 7))]"

definition Elf32_Ehdr :: scheme where
  "Elf32_Ehdr =
    [(''e_ident'',     (''Elf_Ident'', 1)),
     (''e_type'',      (''Elf32_Half'', 1)),
     (''e_machine'',   (''Elf32_Half'', 1)),
     (''e_version'',   (''Elf32_Word'', 1)),
     (''e_entry'',     (''Elf32_Addr'', 1)),
     (''e_phoff'',     (''Elf32_Off'', 1)),
     (''e_shoff'',     (''Elf32_Off'', 1)),
     (''e_flags'',     (''Elf32_Word'', 1)),
     (''e_ehsize'',    (''Elf32_Half'', 1)),
     (''e_phentsize'', (''Elf32_Half'', 1)),
     (''e_phnum'',     (''Elf32_Half'', 1)),
     (''e_shentsize'', (''Elf32_Half'', 1)),
     (''e_shnum'',     (''Elf32_Half'', 1)),
     (''e_shstrndx'',  (''Elf32_Half'', 1))]"

definition Elf64_Ehdr :: scheme where
  "Elf64_Ehdr =
    [(''e_ident'',     (''Elf_Ident'', 1)),
     (''e_type'',      (''Elf64_Half'', 1)),
     (''e_machine'',   (''Elf64_Half'', 1)),
     (''e_version'',   (''Elf64_Word'', 1)),
     (''e_entry'',     (''Elf64_Addr'', 1)),
     (''e_phoff'',     (''Elf64_Off'', 1)),
     (''e_shoff'',     (''Elf64_Off'', 1)),
     (''e_flags'',     (''Elf64_Word'', 1)),
     (''e_ehsize'',    (''Elf64_Half'', 1)),
     (''e_phentsize'', (''Elf64_Half'', 1)),
     (''e_phnum'',     (''Elf64_Half'', 1)),
     (''e_shentsize'', (''Elf64_Half'', 1)),
     (''e_shnum'',     (''Elf64_Half'', 1)),
     (''e_shstrndx'',  (''Elf64_Half'', 1))]"

definition Elf32_Phdr :: scheme where
  "Elf32_Phdr =
    [(''p_type'',   (''Elf32_Word'', 1)),
     (''p_offset'', (''Elf32_Off'', 1)),
     (''p_vaddr'',  (''Elf32_Addr'', 1)),
     (''p_paddr'',  (''Elf32_Addr'', 1)),
     (''p_filesz'', (''Elf32_Word'', 1)),
     (''p_memsz'',  (''Elf32_Word'', 1)),
     (''p_flags'',  (''Elf32_Word'', 1)),
     (''p_align'',  (''Elf32_Word'', 1))]"

definition Elf64_Phdr :: scheme where
  "Elf64_Phdr =
    [(''p_type'',   (''Elf64_Word'', 1)),
     (''p_flags'',  (''Elf64_Word'', 1)),
     (''p_offset'', (''Elf64_Off'', 1)),
     (''p_vaddr'',  (''Elf64_Addr'', 1)),
     (''p_paddr'',  (''Elf64_Addr'', 1)),
     (''p_filesz'', (''Elf64_Xword'', 1)),
     (''p_memsz'',  (''Elf64_Xword'', 1)),
     (''p_align'',  (''Elf64_Xword'', 1))]"

definition Elf32_Shdr :: scheme where
  "Elf32_Shdr =
    [(''sh_name'',      (''Elf32_Word'', 1)),
     (''sh_type'',      (''Elf32_Word'', 1)),
     (''sh_flags'',     (''Elf32_Word'', 1)),
     (''sh_addr'',      (''Elf32_Addr'', 1)),
     (''sh_offset'',    (''Elf32_Off'', 1)),
     (''sh_size'',      (''Elf32_Word'', 1)),
     (''sh_link'',      (''Elf32_Word'', 1)),
     (''sh_info'',      (''Elf32_Word'', 1)),
     (''sh_addralign'', (''Elf32_Word'', 1)),
     (''sh_entsize'',   (''Elf32_Word'', 1))]"

definition Elf64_Shdr :: scheme where
  "Elf64_Shdr =
    [(''sh_name'',      (''Elf64_Word'', 1)),
     (''sh_type'',      (''Elf64_Word'', 1)),
     (''sh_flags'',     (''Elf64_Xword'', 1)),
     (''sh_addr'',      (''Elf64_Addr'', 1)),
     (''sh_offset'',    (''Elf64_Off'', 1)),
     (''sh_size'',      (''Elf64_Xword'', 1)),
     (''sh_link'',      (''Elf64_Word'', 1)),
     (''sh_info'',      (''Elf64_Word'', 1)),
     (''sh_addralign'', (''Elf64_Xword'', 1)),
     (''sh_entsize'',   (''Elf64_Xword'', 1))]"

text \<open>
  \<open>globals()[typeName]\<close>: the module-level names that are bound to schemes. A name
  that is not bound raises KeyError (\<open>None\<close> here).
\<close>

definition globals :: "string \<Rightarrow> scheme option" where
  "globals = map_of
    [(''Elf_Ident'', Elf_Ident), (''Elf32_Ehdr'', Elf32_Ehdr), (''Elf64_Ehdr'', Elf64_Ehdr),
     (''Elf32_Phdr'', Elf32_Phdr), (''Elf64_Phdr'', Elf64_Phdr),
     (''Elf32_Shdr'', Elf32_Shdr), (''Elf64_Shdr'', Elf64_Shdr)]"

section \<open>Values, errors and the byte buffer\<close>

text \<open>
  The Python objects that travel through the marshaller: integers, \<open>bytes\<close>, floats and
  dictionaries (kept as association lists in insertion order, the order of a Python
  \<open>dict\<close>). The type \<open>'f\<close> of floating-point numbers is left open.
\<close>

datatype 'f val = VInt int | VBytes "byte list" | VFloat 'f | VDict "(string \<times> 'f val) list"

text \<open>
  The exceptions the code can raise, named after the failure they stand for:
  \<^item> \<open>MagicMismatch\<close>: the \<open>assert\<close> on \<open>ELF_MAG\<close> in \<open>ELF._parse\<close>;
  \<^item> \<open>UnsupportedVersion\<close>: the \<open>assert\<close> on \<open>EI_VERSION\<close>;
  \<^item> \<open>UnknownClass\<close>: the \<open>raise\<close> in the last branch of the class dispatch (the
    exception that leaves it is a NameError, since the message it formats names
    \<open>e_ident\<close> and not \<open>self.e_ident\<close>; parsing ends there all the same);
  \<^item> \<open>TruncatedInput\<close>: the RuntimeError of \<open>BinaryMarshaller.read\<close> on a short read;
  \<^item> \<open>SchemaMismatch\<close>: \<open>struct.error\<close> from \<open>struct.pack\<close>;
  \<^item> \<open>KeyError\<close>, \<open>IndexError\<close>, \<open>TypeError\<close>, \<open>ValueError\<close>: the Python exceptions of
    a missing dictionary key, an index out of range, an operand of the wrong type and a
    negative seek offset.
\<close>

datatype error =
    MagicMismatch | UnsupportedVersion | UnknownClass | TruncatedInput | SchemaMismatch
  | KeyError | IndexError | TypeError | ValueError

text \<open>\<open>io.BytesIO\<close>: the bytes and the cursor.\<close>

record bytesio =
  buf :: "byte list"
  pos :: nat

text \<open>
  \<open>file.read(n)\<close> returns at most \<open>n\<close> bytes from the cursor (none when the cursor is at or
  past the end) and advances the cursor by what it returned.
\<close>

definition file_read :: "nat \<Rightarrow> bytesio \<Rightarrow> byte list \<times> bytesio" where
  "file_read n f =
     (let got = take n (drop (pos f) (buf f)) in (got, f\<lparr>pos := pos f + length got\<rparr>))"

text \<open>
  \<open>file.write(b)\<close> overwrites from the cursor, growing the buffer when needed; a cursor
  past the end is first reached by zero padding. Writing no bytes changes nothing.
\<close>

definition file_write :: "byte list \<Rightarrow> bytesio \<Rightarrow> bytesio" where
  "file_write bs f =
     (if bs = [] then f
      else let padded = buf f @ replicate (pos f - length (buf f)) 0 in
        f\<lparr>buf := take (pos f) padded @ bs @ drop (pos f + length bs) padded,
          pos := pos f + length bs\<rparr>)"

definition file_seek :: "nat \<Rightarrow> bytesio \<Rightarrow> bytesio" where
  "file_seek offset f = f\<lparr>pos := offset\<rparr>"

section \<open>The struct module\<close>

text \<open>The format characters that \<open>typeNames\<close> uses.\<close>

datatype fmt = Fmt_b | Fmt_B | Fmt_h | Fmt_H | Fmt_i | Fmt_I | Fmt_q | Fmt_Q | Fmt_f | Fmt_d | Fmt_s

fun calcsize :: "fmt \<Rightarrow> nat" where
  "calcsize Fmt_b = 1"
| "calcsize Fmt_B = 1"
| "calcsize Fmt_h = 2"
| "calcsize Fmt_H = 2"
| "calcsize Fmt_i = 4"
| "calcsize Fmt_I = 4"
| "calcsize Fmt_q = 8"
| "calcsize Fmt_Q = 8"
| "calcsize Fmt_f = 4"
| "calcsize Fmt_d = 8"
| "calcsize Fmt_s = 1"

fun is_signed :: "fmt \<Rightarrow> bool" where
  "is_signed Fmt_b = True"
| "is_signed Fmt_h = True"
| "is_signed Fmt_i = True"
| "is_signed Fmt_q = True"
| "is_signed _ = False"

fun is_float :: "fmt \<Rightarrow> bool" where
  "is_float Fmt_f = True"
| "is_float Fmt_d = True"
| "is_float _ = False"

text \<open>
  The IEEE 754 conversions of \<open>struct\<close> are a parameter: \<open>unpack_float c little bs\<close>
  decodes one number of format \<open>c\<close> from \<open>calcsize c\<close> bytes, \<open>pack_float c little obj\<close>
  encodes one object (\<open>None\<close> when \<open>struct.pack\<close> raises).
\<close>

record 'f float_codec =
  unpack_float :: "fmt \<Rightarrow> bool \<Rightarrow> byte list \<Rightarrow> 'f"
  pack_float :: "fmt \<Rightarrow> bool \<Rightarrow> 'f val \<Rightarrow> byte list option"

text \<open>The unsigned value of a byte string, least significant byte first.\<close>

fun le_nat :: "byte list \<Rightarrow> nat" where
  "le_nat [] = 0"
| "le_nat (b # bs) = unat b + 256 * le_nat bs"

definition unpack_int :: "bool \<Rightarrow> bool \<Rightarrow> byte list \<Rightarrow> int" where
  "unpack_int sg little bs =
     (let n = int (le_nat (if little then bs else rev bs)) in
      if sg \<and> 2 ^ (8 * length bs - 1) \<le> n then n - 2 ^ (8 * length bs) else n)"

definition unpack1 :: "'f float_codec \<Rightarrow> bool \<Rightarrow> fmt \<Rightarrow> byte list \<Rightarrow> 'f val" where
  "unpack1 fc little c bs =
     (if is_float c then VFloat (unpack_float fc c little bs)
      else VInt (unpack_int (is_signed c) little bs))"

fun chunks :: "nat \<Rightarrow> nat \<Rightarrow> 'a list \<Rightarrow> 'a list list" where
  "chunks w 0 xs = []"
| "chunks w (Suc n) xs = take w xs # chunks w n (drop w xs)"

text \<open>
  \<open>struct.unpack(f"{endian}{count}{typeFormat}", data)\<close> on \<open>count * calcsize\<close> bytes:
  the tuple of results, as a list. For \<open>s\<close> the count is the length of the one byte
  string; for a number it is the number of items.
\<close>

definition unpack :: "'f float_codec \<Rightarrow> bool \<Rightarrow> nat \<Rightarrow> fmt \<Rightarrow> byte list \<Rightarrow> 'f val list" where
  "unpack fc little count c data =
     (if c = Fmt_s then [VBytes data]
      else map (unpack1 fc little c) (chunks (calcsize c) count data))"

fun le_bytes :: "nat \<Rightarrow> nat \<Rightarrow> byte list" where
  "le_bytes 0 n = []"
| "le_bytes (Suc w) n = of_nat (n mod 256) # le_bytes w (n div 256)"

definition pack_int :: "bool \<Rightarrow> bool \<Rightarrow> nat \<Rightarrow> int \<Rightarrow> byte list option" where
  "pack_int sg little w v =
     (if (if sg then - (2 ^ (8 * w - 1)) \<le> v \<and> v < 2 ^ (8 * w - 1)
          else 0 \<le> v \<and> v < 2 ^ (8 * w))
      then let bs = le_bytes w (nat (v mod 2 ^ (8 * w))) in
        Some (if little then bs else rev bs)
      else None)"

definition pack1 :: "'f float_codec \<Rightarrow> bool \<Rightarrow> fmt \<Rightarrow> 'f val \<Rightarrow> byte list option" where
  "pack1 fc little c obj =
     (if is_float c then pack_float fc c little obj
      else (case obj of
              VInt v \<Rightarrow> pack_int (is_signed c) little (calcsize c) v
            | _ \<Rightarrow> None))"

text \<open>
  \<open>struct.pack(f"{endian}{count}{typeFormat}", obj)\<close> with its single argument
  \<open>obj\<close>; \<open>None\<close> is \<open>struct.error\<close>. For \<open>s\<close> the byte string is cut or zero padded to
  \<open>count\<close> bytes; a number format wants \<open>count\<close> arguments and gets one.
\<close>

definition pack :: "'f float_codec \<Rightarrow> bool \<Rightarrow> nat \<Rightarrow> fmt \<Rightarrow> 'f val \<Rightarrow> byte list option" where
  "pack fc little count c obj =
     (if c = Fmt_s then
        (case obj of
           VBytes bs \<Rightarrow> Some (take count bs @ replicate (count - length bs) 0)
         | _ \<Rightarrow> None)
      else if count \<noteq> 1 then None
      else pack1 fc little c obj)"

section \<open>BinaryMarshaller\<close>

definition typeNames :: "(string \<times> fmt) list" where
  "typeNames =
    [(''int8'', Fmt_b), (''uint8'', Fmt_B), (''int16'', Fmt_h), (''uint16'', Fmt_H),
     (''int32'', Fmt_i), (''uint32'', Fmt_I), (''int64'', Fmt_q), (''uint64'', Fmt_Q),
     (''float'', Fmt_f), (''double'', Fmt_d), (''char'', Fmt_s),
     (''Elf32_Half'', Fmt_H), (''Elf32_Word'', Fmt_I), (''Elf32_Off'', Fmt_I),
     (''Elf32_Addr'', Fmt_I), (''Elf64_Half'', Fmt_H), (''Elf64_Word'', Fmt_I),
     (''Elf64_Off'', Fmt_Q), (''Elf64_Addr'', Fmt_Q), (''Elf64_Xword'', Fmt_Q)]"

definition schemes :: "string list" where
  "schemes = [''Elf_Ident'', ''Elf32_Ehdr'', ''Elf64_Ehdr'']"

text \<open>How deep a type name nests schemes: the measure of the recursion below.\<close>

definition rank :: "string \<Rightarrow> nat" where
  "rank t = (if t = ''Elf_Ident'' then 1
             else if t = ''Elf32_Ehdr'' \<or> t = ''Elf64_Ehdr'' then 2 else 0)"

fun srank :: "scheme \<Rightarrow> nat" where
  "srank [] = 0"
| "srank ((name, (t, c)) # rest) = max (rank t) (srank rest)"

lemma schemes_cases:
  "t \<in> set schemes \<Longrightarrow> t = ''Elf_Ident'' \<or> t = ''Elf32_Ehdr'' \<or> t = ''Elf64_Ehdr''"
  by (simp add: schemes_def)

lemma globals_Elf_Ident: "globals ''Elf_Ident'' = Some Elf_Ident"
  by (simp add: globals_def)

lemma globals_Elf32_Ehdr: "globals ''Elf32_Ehdr'' = Some Elf32_Ehdr"
  by (simp add: globals_def)

lemma globals_Elf64_Ehdr: "globals ''Elf64_Ehdr'' = Some Elf64_Ehdr"
  by (simp add: globals_def)

lemma srank_Elf_Ident: "srank Elf_Ident = 0"
  by (simp add: Elf_Ident_def rank_def)

lemma srank_Elf32_Ehdr: "srank Elf32_Ehdr = 1"
  by (simp add: Elf32_Ehdr_def rank_def)

lemma srank_Elf64_Ehdr: "srank Elf64_Ehdr = 1"
  by (simp add: Elf64_Ehdr_def rank_def)

lemma srank_globals:
  assumes "t \<in> set schemes" and "globals t = Some sch"
  shows "srank sch < rank t"
proof -
  from assms(1) have "t = ''Elf_Ident'' \<or> t = ''Elf32_Ehdr'' \<or> t = ''Elf64_Ehdr''"
    by (rule schemes_cases)
  then show ?thesis
  proof (elim disjE)
    assume "t = ''Elf_Ident''"
    with assms(2) show ?thesis
      by (simp add: globals_Elf_Ident srank_Elf_Ident rank_def)
  next
    assume "t = ''Elf32_Ehdr''"
    with assms(2) show ?thesis
      by (simp add: globals_Elf32_Ehdr srank_Elf32_Ehdr rank_def)
  next
    assume "t = ''Elf64_Ehdr''"
    with assms(2) show ?thesis
      by (simp add: globals_Elf64_Ehdr srank_Elf64_Ehdr rank_def)
  qed
qed

text \<open>
  \<open>BinaryMarshaller.read\<close> and the loop of \<open>BinaryMarshaller.readStruct\<close>, which call
  each other; \<open>res\<close> is the dictionary the loop fills. The byte order is little-endian
  when \<open>endian == ELFDATA2LSB\<close> and big-endian for every other value. The callers
  pass \<open>ELFDATA2LSB\<close>, \<open>ELFDATA2MSB\<close> or the integer read from \<open>EI_DATA\<close>, so the
  comparison is one of integers.
\<close>

function bm_read ::
    "'f float_codec \<Rightarrow> string \<Rightarrow> nat \<Rightarrow> 'f val \<Rightarrow> bytesio \<Rightarrow> (error + 'f val) \<times> bytesio"
  and readStruct_loop ::
    "'f float_codec \<Rightarrow> scheme \<Rightarrow> 'f val \<Rightarrow> (string \<times> 'f val) list \<Rightarrow> bytesio
      \<Rightarrow> (error + (string \<times> 'f val) list) \<times> bytesio"
where
  "bm_read fc typeName count endian f =
     (if typeName \<in> set schemes then
        (case globals typeName of
           None \<Rightarrow> (Inl KeyError, f)
         | Some sch \<Rightarrow>
             (case readStruct_loop fc sch endian [] f of
                (Inl e, f') \<Rightarrow> (Inl e, f')
              | (Inr res, f') \<Rightarrow> (Inr (VDict res), f')))
      else
        (case map_of typeNames typeName of
           None \<Rightarrow> (Inl KeyError, f)
         | Some typeFormat \<Rightarrow>
             (let typeSize = count * calcsize typeFormat;
                  (data, f') = file_read typeSize f
              in if typeSize \<noteq> length data then (Inl TruncatedInput, f')
                 else (case unpack fc (endian = VInt ELFDATA2LSB) count typeFormat data of
                         [] \<Rightarrow> (Inl IndexError, f')
                       | v # _ \<Rightarrow> (Inr v, f')))))"
| "readStruct_loop fc [] endian res f = (Inr res, f)"
| "readStruct_loop fc ((name, (typename, count)) # rest) endian res f =
     (case bm_read fc typename count endian f of
        (Inl e, f') \<Rightarrow> (Inl e, f')
      | (Inr v, f') \<Rightarrow> readStruct_loop fc rest endian (AList.update name v res) f')"
  by pat_completeness auto
termination
  by (relation "measures
        [\<lambda>x. case x of Inl (fc, t, c, e, f) \<Rightarrow> rank t | Inr (fc, sch, e, res, f) \<Rightarrow> srank sch,
         \<lambda>x. case x of Inl a \<Rightarrow> 0 | Inr (fc, sch, e, res, f) \<Rightarrow> Suc (length sch)]")
     (auto dest: srank_globals)

definition readStruct ::
    "'f float_codec \<Rightarrow> scheme \<Rightarrow> 'f val \<Rightarrow> bytesio \<Rightarrow> (error + (string \<times> 'f val) list) \<times> bytesio"
where
  "readStruct fc sch endian f = readStruct_loop fc sch endian [] f"

text \<open>\<open>struct[name]\<close>: only a dictionary can be indexed by a field name.\<close>

definition dict_get :: "(string \<times> 'f val) list \<Rightarrow> string \<Rightarrow> error + 'f val" where
  "dict_get d name = (case map_of d name of None \<Rightarrow> Inl KeyError | Some v \<Rightarrow> Inr v)"

fun getitem :: "'f val \<Rightarrow> string \<Rightarrow> error + 'f val" where
  "getitem (VDict d) name = dict_get d name"
| "getitem _ name = Inl TypeError"

text \<open>
  \<open>BinaryMarshaller.write\<close> and \<open>BinaryMarshaller.writeStruct\<close>. A scheme name
  ignores \<open>count\<close>; any other type packs \<open>obj\<close> as the single argument of
  \<open>struct.pack\<close>.
\<close>

function bm_write ::
    "'f float_codec \<Rightarrow> 'f val \<Rightarrow> string \<Rightarrow> nat \<Rightarrow> 'f val \<Rightarrow> bytesio \<Rightarrow> (error + unit) \<times> bytesio"
  and writeStruct ::
    "'f float_codec \<Rightarrow> 'f val \<Rightarrow> scheme \<Rightarrow> 'f val \<Rightarrow> bytesio \<Rightarrow> (error + unit) \<times> bytesio"
where
  "bm_write fc obj typeName count endian f =
     (if typeName \<in> set schemes then
        (case globals typeName of
           None \<Rightarrow> (Inl KeyError, f)
         | Some sch \<Rightarrow> writeStruct fc obj sch endian f)
      else
        (case map_of typeNames typeName of
           None \<Rightarrow> (Inl KeyError, f)
         | Some typeFormat \<Rightarrow>
             (case pack fc (endian = VInt ELFDATA2LSB) count typeFormat obj of
                None \<Rightarrow> (Inl SchemaMismatch, f)
              | Some obj_packed \<Rightarrow> (Inr (), file_write obj_packed f))))"
| "writeStruct fc struct [] endian f = (Inr (), f)"
| "writeStruct fc struct ((name, (typename, count)) # rest) endian f =
     (case getitem struct name of
        Inl e \<Rightarrow> (Inl e, f)
      | Inr obj \<Rightarrow>
          (case bm_write fc obj typename count endian f of
             (Inl e, f') \<Rightarrow> (Inl e, f')
           | (Inr u, f') \<Rightarrow> writeStruct fc struct rest endian f'))"
  by pat_completeness auto
termination
  by (relation "measures
        [\<lambda>x. case x of Inl (fc, obj, t, c, e, f) \<Rightarrow> rank t | Inr (fc, obj, sch, e, f) \<Rightarrow> srank sch,
         \<lambda>x. case x of Inl a \<Rightarrow> 0 | Inr (fc, obj, sch, e, f) \<Rightarrow> Suc (length sch)]")
     (auto dest: srank_globals)

section \<open>ELF: parsing and serialising the headers\<close>

text \<open>Sequencing of steps that may raise: the first exception ends the run.\<close>

definition returnE :: "'a \<Rightarrow> 's \<Rightarrow> (error + 'a) \<times> 's" where
  "returnE a s = (Inr a, s)"

definition raiseE :: "error \<Rightarrow> 's \<Rightarrow> (error + 'a) \<times> 's" where
  "raiseE e s = (Inl e, s)"

definition liftE :: "error + 'a \<Rightarrow> 's \<Rightarrow> (error + 'a) \<times> 's" where
  "liftE r s = (r, s)"

definition bindE ::
    "('s \<Rightarrow> (error + 'a) \<times> 's) \<Rightarrow> ('a \<Rightarrow> 's \<Rightarrow> (error + 'b) \<times> 's) \<Rightarrow> 's \<Rightarrow> (error + 'b) \<times> 's"
where
  "bindE m k s = (case m s of (Inl e, s') \<Rightarrow> (Inl e, s') | (Inr a, s') \<Rightarrow> k a s')"

text \<open>
  \<open>bm.seek(v)\<close> and \<open>range(v)\<close> on a Python object: both want an integer, and a
  seek offset must not be negative. \<open>range\<close> of a negative number is empty.
\<close>

fun bm_seek :: "'f val \<Rightarrow> bytesio \<Rightarrow> (error + unit) \<times> bytesio" where
  "bm_seek (VInt n) f = (if n < 0 then (Inl ValueError, f) else (Inr (), file_seek (nat n) f))"
| "bm_seek _ f = (Inl TypeError, f)"

fun range_len :: "'f val \<Rightarrow> error + nat" where
  "range_len (VInt n) = Inr (nat n)"
| "range_len _ = Inl TypeError"

text \<open>The attributes of an \<open>ELF\<close> object, apart from its file.\<close>

record 'f elf =
  e_ident :: "(string \<times> 'f val) list"
  ehdr :: "(string \<times> 'f val) list"
  phdrs :: "(string \<times> 'f val) list list"
  shdrs :: "(string \<times> 'f val) list list"

text \<open>
  The loop \<open>for _ in range(n): entry = bm.readStruct(sch, endian); entries.append(entry)\<close>.
\<close>

fun read_entries ::
    "'f float_codec \<Rightarrow> scheme \<Rightarrow> 'f val \<Rightarrow> nat \<Rightarrow> (string \<times> 'f val) list list \<Rightarrow> bytesio
      \<Rightarrow> (error + (string \<times> 'f val) list list) \<times> bytesio"
where
  "read_entries fc sch endian 0 entries f = (Inr entries, f)"
| "read_entries fc sch endian (Suc n) entries f =
     (case readStruct fc sch endian f of
        (Inl e, f') \<Rightarrow> (Inl e, f')
      | (Inr entry, f') \<Rightarrow> read_entries fc sch endian n (entries @ [entry]) f')"

text \<open>
  \<open>ELF._parse\<close>, lines 490 to 493: the identification block is read with
  \<open>ELFDATA2MSB\<close>, the magic and the version are asserted, and \<open>EI_DATA\<close> becomes the
  byte order of every later read.
\<close>

definition parse_ident ::
    "'f float_codec \<Rightarrow> bytesio \<Rightarrow> (error + (string \<times> 'f val) list \<times> 'f val) \<times> bytesio"
where
  "parse_ident fc =
     bindE (readStruct fc Elf_Ident (VInt ELFDATA2MSB)) (\<lambda>ident.
     bindE (liftE (dict_get ident ''ELF_MAG'')) (\<lambda>mag.
     if mag \<noteq> VBytes ELFMAG then raiseE MagicMismatch else
     bindE (liftE (dict_get ident ''EI_VERSION'')) (\<lambda>version.
     if version \<noteq> VInt EV_CURRENT then raiseE UnsupportedVersion else
     bindE (liftE (dict_get ident ''EI_DATA'')) (\<lambda>endian.
     returnE (ident, endian)))))"

text \<open>
  Lines 495 to 505: back to offset 0, the class picks the schemes and the file header is
  read. The result is \<open>(Elf_Phdr, Elf_Shdr, self.ehdr)\<close>.
\<close>

definition parse_header ::
    "'f float_codec \<Rightarrow> (string \<times> 'f val) list \<Rightarrow> 'f val \<Rightarrow> bytesio
      \<Rightarrow> (error + scheme \<times> scheme \<times> (string \<times> 'f val) list) \<times> bytesio"
where
  "parse_header fc ident endian =
     bindE (bm_seek (VInt 0 :: 'f val)) (\<lambda>u.
     bindE (liftE (dict_get ident ''EI_CLASS'')) (\<lambda>cls.
     if cls = VInt ELFCLASS32 then
       bindE (readStruct fc Elf32_Ehdr endian) (\<lambda>hdr. returnE (Elf32_Phdr, Elf32_Shdr, hdr))
     else if cls = VInt ELFCLASS64 then
       bindE (readStruct fc Elf64_Ehdr endian) (\<lambda>hdr. returnE (Elf64_Phdr, Elf64_Shdr, hdr))
     else raiseE UnknownClass))"

text \<open>Lines 507 to 519: the program headers, then the section headers.\<close>

definition parse_tables ::
    "'f float_codec \<Rightarrow> scheme \<Rightarrow> scheme \<Rightarrow> 'f val \<Rightarrow> (string \<times> 'f val) list
      \<Rightarrow> (string \<times> 'f val) list \<Rightarrow> bytesio \<Rightarrow> (error + 'f elf) \<times> bytesio"
where
  "parse_tables fc Elf_Phdr Elf_Shdr endian ident hdr =
     bindE (liftE (dict_get hdr ''e_phoff'')) (\<lambda>phoff.
     bindE (bm_seek phoff) (\<lambda>u.
     bindE (liftE (dict_get hdr ''e_phnum'')) (\<lambda>phnum.
     bindE (liftE (range_len phnum)) (\<lambda>np.
     bindE (read_entries fc Elf_Phdr endian np []) (\<lambda>ps.
     bindE (liftE (dict_get hdr ''e_shoff'')) (\<lambda>shoff.
     bindE (bm_seek shoff) (\<lambda>u.
     bindE (liftE (dict_get hdr ''e_shnum'')) (\<lambda>shnum.
     bindE (liftE (range_len shnum)) (\<lambda>ns.
     bindE (read_entries fc Elf_Shdr endian ns []) (\<lambda>ss.
     returnE \<lparr>e_ident = ident, ehdr = hdr, phdrs = ps, shdrs = ss\<rparr>))))))))))"

definition parse_body ::
    "'f float_codec \<Rightarrow> (string \<times> 'f val) list \<Rightarrow> 'f val \<Rightarrow> bytesio \<Rightarrow> (error + 'f elf) \<times> bytesio"
where
  "parse_body fc ident endian =
     bindE (parse_header fc ident endian) (\<lambda>(Elf_Phdr, Elf_Shdr, hdr).
     parse_tables fc Elf_Phdr Elf_Shdr endian ident hdr)"

text \<open>\<open>ELF._parse\<close> as a whole, on the marshaller's file.\<close>

definition ELF_parse :: "'f float_codec \<Rightarrow> bytesio \<Rightarrow> (error + 'f elf) \<times> bytesio" where
  "ELF_parse fc = bindE (parse_ident fc) (\<lambda>(ident, endian). parse_body fc ident endian)"

text \<open>\<open>ELF(input_file)\<close>: the bytes of the file in a fresh \<open>BytesIO\<close>, then \<open>_parse\<close>.\<close>

definition ELF :: "'f float_codec \<Rightarrow> byte list \<Rightarrow> (error + 'f elf) \<times> bytesio" where
  "ELF fc input = ELF_parse fc \<lparr>buf = input, pos = 0\<rparr>"

text \<open>The loop \<open>for i in range(n): bm.writeStruct(entries[i], sch, endian = endian)\<close>.\<close>

fun write_entries ::
    "'f float_codec \<Rightarrow> (string \<times> 'f val) list list \<Rightarrow> scheme \<Rightarrow> 'f val \<Rightarrow> nat \<Rightarrow> nat \<Rightarrow> bytesio
      \<Rightarrow> (error + unit) \<times> bytesio"
where
  "write_entries fc entries sch endian i 0 f = (Inr (), f)"
| "write_entries fc entries sch endian i (Suc n) f =
     (if i < length entries then
        (case writeStruct fc (VDict (entries ! i)) sch endian f of
           (Inl e, f') \<Rightarrow> (Inl e, f')
         | (Inr u, f') \<Rightarrow> write_entries fc entries sch endian (Suc i) n f')
      else (Inl IndexError, f))"

text \<open>
  \<open>ELF.serialize\<close> on the file that \<open>_parse\<close> left behind. The file header is written
  by \<open>bm.writeStruct(self.ehdr, Elf_Ehdr)\<close>, with no seek before it and with the
  default byte order \<open>ELFDATA2LSB\<close>; the two tables are written after a seek and with
  \<open>endian = self.e_ident["EI_DATA"]\<close>. The calls of \<open>deserialize\<close> and \<open>debug\<close> only
  print (they consult the global \<open>args\<close>, which \<open>main\<close> has set). At the end
  \<open>self.file\<close> is a new \<open>BytesIO\<close> of the same bytes, its cursor at 0.
\<close>

definition serialize :: "'f float_codec \<Rightarrow> 'f elf \<Rightarrow> bytesio \<Rightarrow> (error + unit) \<times> bytesio" where
  "serialize fc self =
     bindE (liftE (dict_get (e_ident self) ''EI_CLASS'')) (\<lambda>cls.
     bindE (if cls = VInt ELFCLASS32 then returnE (Elf32_Ehdr, Elf32_Phdr, Elf32_Shdr)
            else if cls = VInt ELFCLASS64 then returnE (Elf64_Ehdr, Elf64_Phdr, Elf64_Shdr)
            else raiseE UnknownClass) (\<lambda>(Elf_Ehdr, Elf_Phdr, Elf_Shdr).
     bindE (liftE (dict_get (e_ident self) ''EI_DATA'')) (\<lambda>endian.
     bindE (writeStruct fc (VDict (ehdr self)) Elf_Ehdr (VInt ELFDATA2LSB)) (\<lambda>u.
     bindE (liftE (dict_get (ehdr self) ''e_phoff'')) (\<lambda>phoff.
     bindE (bm_seek phoff) (\<lambda>u.
     bindE (liftE (dict_get (ehdr self) ''e_phnum'')) (\<lambda>phnum.
     bindE (liftE (range_len phnum)) (\<lambda>np.
     bindE (write_entries fc (phdrs self) Elf_Phdr endian 0 np) (\<lambda>u.
     bindE (liftE (dict_get (ehdr self) ''e_shoff'')) (\<lambda>shoff.
     bindE (bm_seek shoff) (\<lambda>u.
     bindE (liftE (dict_get (ehdr self) ''e_shnum'')) (\<lambda>shnum.
     bindE (liftE (range_len shnum)) (\<lambda>ns.
     bindE (write_entries fc (shdrs self) Elf_Shdr endian 0 ns) (\<lambda>u.
     (\<lambda>f. (Inr (), f\<lparr>pos := 0\<rparr>))))))))))))))))"

text \<open>\<open>ELF.read\<close>: serialise, then return the bytes of the file.\<close>

definition ELF_read :: "'f float_codec \<Rightarrow> 'f elf \<Rightarrow> bytesio \<Rightarrow> (error + byte list) \<times> bytesio" where
  "ELF_read fc self = bindE (serialize fc self) (\<lambda>u f. (Inr (buf f), f))"

text \<open>Parse a buffer and emit it again, nothing changed in between.\<close>

definition parse_emit :: "'f float_codec \<Rightarrow> byte list \<Rightarrow> error + byte list" where
  "parse_emit fc input =
     (case ELF fc input of
        (Inl e, f) \<Rightarrow> Inl e
      | (Inr self, f) \<Rightarrow> fst (ELF_read fc self f))"

text \<open>
  A codec for closed examples: floating-point numbers do not occur in any scheme of the
  program, so the examples run with a codec that decodes nothing.
\<close>

definition no_floats :: "unit float_codec" where
  "no_floats = \<lparr>unpack_float = (\<lambda>c little bs. ()), pack_float = (\<lambda>c little obj. None)\<rparr>"

section \<open>Notions for the proofs\<close>

subsection \<open>Sizes and kinds of schemes\<close>

text \<open>
  The bytes a field takes when its type is a primitive one, and the schemes that are made
  of such fields only (with a count of at least 1 for every number, so that
  \<open>struct.unpack\<close> returns a first item).
\<close>

fun field_size :: "string \<times> string \<times> nat \<Rightarrow> nat" where
  "field_size (name, (t, c)) =
     (case map_of typeNames t of None \<Rightarrow> 0 | Some fm \<Rightarrow> c * calcsize fm)"

definition scheme_size :: "scheme \<Rightarrow> nat" where
  "scheme_size sch = sum_list (map field_size sch)"

fun flat_field :: "string \<times> string \<times> nat \<Rightarrow> bool" where
  "flat_field (name, (t, c)) =
     (case map_of typeNames t of None \<Rightarrow> False | Some fm \<Rightarrow> fm = Fmt_s \<or> 0 < c)"

definition flat_scheme :: "scheme \<Rightarrow> bool" where
  "flat_scheme sch = list_all flat_field sch"

text \<open>Fields that are a single byte or a byte string: their decoding has no byte order.\<close>

fun byte_field :: "string \<times> string \<times> nat \<Rightarrow> bool" where
  "byte_field (name, (t, c)) =
     (case map_of typeNames t of None \<Rightarrow> False | Some fm \<Rightarrow> calcsize fm = 1 \<and> \<not> is_float fm)"

text \<open>
  Fields whose value, when it is an integer, cannot be negative: nested schemes (a
  dictionary) and primitive types with an unsigned or non-integer format.
\<close>

fun unsigned_field :: "string \<times> string \<times> nat \<Rightarrow> bool" where
  "unsigned_field (name, (t, c)) =
     (t \<in> set schemes \<or>
      (case map_of typeNames t of None \<Rightarrow> False | Some fm \<Rightarrow> \<not> is_signed fm))"

fun nonneg_val :: "'f val \<Rightarrow> bool" where
  "nonneg_val (VInt n) = (0 \<le> n)"
| "nonneg_val _ = True"

subsection \<open>The bytes at the cursor and schemes that can be written back\<close>

text \<open>The next \<open>n\<close> bytes at the cursor (fewer at the end of the file).\<close>

definition next_bytes :: "nat \<Rightarrow> bytesio \<Rightarrow> byte list" where
  "next_bytes n f = take n (drop (pos f) (buf f))"

text \<open>
  The fields whose value \<open>write\<close> can encode again: a nested scheme, a byte string, or an
  integer with count 1. A scheme is written back when all its fields are such and no
  field name occurs twice.
\<close>

fun rt_field :: "string \<times> string \<times> nat \<Rightarrow> bool" where
  "rt_field (name, (t, c)) =
     (t \<in> set schemes \<or>
      (case map_of typeNames t of
         None \<Rightarrow> False
       | Some fm \<Rightarrow> fm = Fmt_s \<or> (\<not> is_float fm \<and> c = 1)))"

definition rt_scheme :: "scheme \<Rightarrow> bool" where
  "rt_scheme sch = (distinct (map fst sch) \<and> list_all rt_field sch)"

text \<open>
  A read \<open>rd\<close> that succeeds on \<open>f\<close> with value \<open>v\<close> and file \<open>f'\<close> has consumed some \<open>n\<close>
  bytes, all of them there, and does the same on every file that shows the same \<open>n\<close>
  bytes at its cursor.
\<close>

definition reads_as :: "(bytesio \<Rightarrow> (error + 'a) \<times> bytesio) \<Rightarrow> bytesio \<Rightarrow> 'a \<Rightarrow> bytesio \<Rightarrow> bool"
where
  "reads_as rd f v f' \<longleftrightarrow>
     (\<exists>n. f' = f\<lparr>pos := pos f + n\<rparr> \<and> length (next_bytes n f) = n
        \<and> (\<forall>g. next_bytes n g = next_bytes n f \<longrightarrow> rd g = (Inr v, g\<lparr>pos := pos g + n\<rparr>)))"

text \<open>The bytes between the cursor of \<open>f\<close> and the cursor of \<open>f'\<close>.\<close>

definition consumed :: "bytesio \<Rightarrow> bytesio \<Rightarrow> byte list" where
  "consumed f f' = next_bytes (pos f' - pos f) f"

section \<open>Example buffers\<close>

text \<open>Sixteen zero bytes: long enough for an identification block, with no magic.\<close>

definition zero_block :: "byte list" where
  "zero_block = [0, 0, 0, 0, 0, 0, 0, 0, 0, 0, 0, 0, 0, 0, 0, 0]"

text \<open>
  ELF32 headers for the examples: the identification block with data-encoding byte \<open>d\<close>,
  and the 36 bytes of the other header fields (type 2, machine 3, version 1, header size
  52, entry sizes 32 and 40) in little-endian and in big-endian layout, with the table
  offsets and counts as parameters.
\<close>

definition ident32 :: "byte \<Rightarrow> byte list" where
  "ident32 d = [0x7F, 0x45, 0x4C, 0x46, 1, d, 1, 0, 0, 0, 0, 0, 0, 0, 0, 0]"

definition le_fields :: "byte \<Rightarrow> byte \<Rightarrow> byte \<Rightarrow> byte \<Rightarrow> byte list" where
  "le_fields phoff phnum shoff shnum =
     [2, 0,  3, 0,  1, 0, 0, 0,  0, 0, 0, 0,  phoff, 0, 0, 0,  shoff, 0, 0, 0,  0, 0, 0, 0,
      52, 0,  32, 0,  phnum, 0,  40, 0,  shnum, 0,  0, 0]"

definition be_fields :: "byte \<Rightarrow> byte \<Rightarrow> byte \<Rightarrow> byte \<Rightarrow> byte list" where
  "be_fields phoff phnum shoff shnum =
     [0, 2,  0, 3,  0, 0, 0, 1,  0, 0, 0, 0,  0, 0, 0, phoff,  0, 0, 0, shoff,  0, 0, 0, 0,
      0, 52,  0, 32,  0, phnum,  0, 40,  0, shnum,  0, 0]"

text \<open>
  What those buffers decode to: the identification block for data-encoding byte \<open>d\<close>, the
  file header, and a program header and a section header whose fields all hold \<open>x\<close>.
\<close>

definition ident_model :: "int \<Rightarrow> (string \<times> unit val) list" where
  "ident_model d =
     [(''ELF_MAG'', VBytes [127, 69, 76, 70]), (''EI_CLASS'', VInt 1), (''EI_DATA'', VInt d),
      (''EI_VERSION'', VInt 1), (''EI_OSABI'', VInt 0), (''EI_ABIVERSION'', VInt 0),
      (''EI_PAD'', VBytes [0, 0, 0, 0, 0, 0, 0])]"

definition ehdr_model :: "int \<Rightarrow> int \<Rightarrow> int \<Rightarrow> int \<Rightarrow> int \<Rightarrow> (string \<times> unit val) list" where
  "ehdr_model d phoff phnum shoff shnum =
     [(''e_ident'', VDict (ident_model d)), (''e_type'', VInt 2), (''e_machine'', VInt 3),
      (''e_version'', VInt 1), (''e_entry'', VInt 0), (''e_phoff'', VInt phoff),
      (''e_shoff'', VInt shoff), (''e_flags'', VInt 0), (''e_ehsize'', VInt 52),
      (''e_phentsize'', VInt 32), (''e_phnum'', VInt phnum), (''e_shentsize'', VInt 40),
      (''e_shnum'', VInt shnum), (''e_shstrndx'', VInt 0)]"

definition phdr_model :: "int \<Rightarrow> (string \<times> unit val) list" where
  "phdr_model x =
     [(''p_type'', VInt x), (''p_offset'', VInt x), (''p_vaddr'', VInt x), (''p_paddr'', VInt x),
      (''p_filesz'', VInt x), (''p_memsz'', VInt x), (''p_flags'', VInt x), (''p_align'', VInt x)]"

definition shdr_model :: "int \<Rightarrow> (string \<times> unit val) list" where
  "shdr_model x =
     [(''sh_name'', VInt x), (''sh_type'', VInt x), (''sh_flags'', VInt x), (''sh_addr'', VInt x),
      (''sh_offset'', VInt x), (''sh_size'', VInt x), (''sh_link'', VInt x), (''sh_info'', VInt x),
      (''sh_addralign'', VInt x), (''sh_entsize'', VInt x)]"

text \<open>
  A little-endian ELF32 file of 92 bytes: the header, no program headers, and at offset
  52 one section header of 40 zero bytes.
\<close>

definition one_section :: "byte list" where
  "one_section = ident32 1 @ le_fields 0 0 52 1 @ replicate 40 0"

text \<open>
  A little-endian ELF32 file with one program header at offset 52 (every field 7) and one
  section header at offset 84 (every field 9), and the model it parses to.
\<close>

definition two_tables :: "byte list" where
  "two_tables = ident32 1 @ le_fields 52 1 84 1
     @ concat (replicate 8 [7, 0, 0, 0]) @ concat (replicate 10 [9, 0, 0, 0])"

definition two_tables_model :: "unit elf" where
  "two_tables_model =
     \<lparr>e_ident = ident_model 1, ehdr = ehdr_model 1 52 1 84 1,
      phdrs = [phdr_model 7], shdrs = [shdr_model 9]\<rparr>"

section \<open>Properties of the marshaller\<close>

declare bm_read.simps [simp del] bm_write.simps [simp del]

lemma typeNames_not_scheme:
  assumes "map_of typeNames t = Some c"
  shows "t \<notin> set schemes"
proof
  assume "t \<in> set schemes"
  then have "t = ''Elf_Ident'' \<or> t = ''Elf32_Ehdr'' \<or> t = ''Elf64_Ehdr''"
    by (rule schemes_cases)
  then have "map_of typeNames t = None"
    by (elim disjE) (simp_all add: typeNames_def)
  with assms show False by simp
qed

lemma chunks_pos: "0 < n \<Longrightarrow> chunks w n xs = take w xs # chunks w (n - 1) (drop w xs)"
  by (cases n) simp_all

lemma unpack_nonempty:
  "c = Fmt_s \<or> 0 < n \<Longrightarrow>
   unpack fc little n c data =
     (if c = Fmt_s then VBytes data else unpack1 fc little c (take (calcsize c) data))
     # (if c = Fmt_s then [] else map (unpack1 fc little c) (chunks (calcsize c) (n - 1) (drop (calcsize c) data)))"
  by (auto simp: unpack_def chunks_pos)

text \<open>A read of a primitive type: what it does when enough bytes are left, and when not.\<close>

lemma bm_read_prim:
  assumes "map_of typeNames t = Some c"
  shows "bm_read fc t n e f =
     (let typeSize = n * calcsize c; (data, f') = file_read typeSize f
      in if typeSize \<noteq> length data then (Inl TruncatedInput, f')
         else (case unpack fc (e = VInt ELFDATA2LSB) n c data of
                 [] \<Rightarrow> (Inl IndexError, f')
               | v # _ \<Rightarrow> (Inr v, f')))"
  using assms typeNames_not_scheme [OF assms] by (simp add: bm_read.simps)

lemma bm_read_prim_ok:
  assumes "map_of typeNames t = Some c" and "c = Fmt_s \<or> 0 < n"
    and "n * calcsize c \<le> length (buf f) - pos f"
  shows "bm_read fc t n e f =
     (Inr (if c = Fmt_s then VBytes (take n (drop (pos f) (buf f)))
           else unpack1 fc (e = VInt ELFDATA2LSB) c (take (calcsize c) (drop (pos f) (buf f)))),
      f\<lparr>pos := pos f + n * calcsize c\<rparr>)"
proof -
  have len: "length (take (n * calcsize c) (drop (pos f) (buf f))) = n * calcsize c"
    using assms(3) by simp
  have "take (calcsize c) (take (n * calcsize c) (drop (pos f) (buf f))) = take (calcsize c) (drop (pos f) (buf f))" if "0 < n"
    using that by (simp add: min_def)
  then show ?thesis
    using assms(2) len
    by (auto simp: bm_read_prim [OF assms(1)] file_read_def Let_def unpack_nonempty [OF assms(2)])
qed

lemma bm_read_prim_short:
  assumes "map_of typeNames t = Some c"
    and "length (buf f) - pos f < n * calcsize c"
  shows "fst (bm_read fc t n e f) = Inl TruncatedInput"
  using assms(2) by (simp add: bm_read_prim [OF assms(1)] file_read_def Let_def)

text \<open>
  Claim C7. The two bytes \<open>0x02 0x00\<close>, read as a 16-bit unsigned integer, give 2 when
  the byte order is \<open>ELFDATA2LSB\<close> and 512 when it is \<open>ELFDATA2MSB\<close>.
\<close>

theorem read_uint16_byte_order:
  "bm_read fc ''uint16'' 1 (VInt ELFDATA2LSB) \<lparr>buf = [0x02, 0x00], pos = 0\<rparr>
     = (Inr (VInt 2), \<lparr>buf = [0x02, 0x00], pos = 2\<rparr>)
   \<and> bm_read fc ''uint16'' 1 (VInt ELFDATA2MSB) \<lparr>buf = [0x02, 0x00], pos = 0\<rparr>
     = (Inr (VInt 512), \<lparr>buf = [0x02, 0x00], pos = 2\<rparr>)"
proof -
  have t: "map_of typeNames ''uint16'' = Some Fmt_H"
    by (simp add: typeNames_def)
  show ?thesis
    by (simp add: bm_read_prim_ok [OF t] unpack1_def unpack_int_def ELFDATA2LSB_def ELFDATA2MSB_def)
qed

text \<open>Reading a scheme of primitive fields: it succeeds exactly when enough bytes are left.\<close>

lemma readStruct_loop_flat_ok:
  "flat_scheme sch \<Longrightarrow> scheme_size sch \<le> length (buf f) - pos f \<Longrightarrow>
   \<exists>m. readStruct_loop fc sch e res f = (Inr m, f\<lparr>pos := pos f + scheme_size sch\<rparr>)"
proof (induction sch arbitrary: res f)
  case Nil
  then show ?case by (simp add: scheme_size_def)
next
  case (Cons x rest)
  obtain name t c where x: "x = (name, (t, c))" by (cases x) auto
  from Cons.prems(1) obtain fm where fm: "map_of typeNames t = Some fm" "fm = Fmt_s \<or> 0 < c"
    and flat: "flat_scheme rest"
    by (auto simp: flat_scheme_def x split: option.splits)
  have sz: "scheme_size (x # rest) = c * calcsize fm + scheme_size rest"
    by (simp add: scheme_size_def x fm)
  let ?f1 = "f\<lparr>pos := pos f + c * calcsize fm\<rparr>"
  from Cons.prems(2) sz have enough: "c * calcsize fm \<le> length (buf f) - pos f"
    and rest: "scheme_size rest \<le> length (buf ?f1) - pos ?f1"
    by simp_all
  from Cons.IH [OF flat rest] obtain m where
    "readStruct_loop fc rest e (AList.update name
        (if fm = Fmt_s then VBytes (take c (drop (pos f) (buf f)))
         else unpack1 fc (e = VInt ELFDATA2LSB) fm (take (calcsize fm) (drop (pos f) (buf f)))) res) ?f1
      = (Inr m, ?f1\<lparr>pos := pos ?f1 + scheme_size rest\<rparr>)"
    by blast
  then show ?case
    by (simp add: x bm_read_prim_ok [OF fm enough] sz [unfolded x] add.assoc)
qed

lemma readStruct_loop_flat_short:
  "flat_scheme sch \<Longrightarrow> length (buf f) - pos f < scheme_size sch \<Longrightarrow>
   fst (readStruct_loop fc sch e res f) = Inl TruncatedInput"
proof (induction sch arbitrary: res f)
  case Nil
  then show ?case by (simp add: scheme_size_def)
next
  case (Cons x rest)
  obtain name t c where x: "x = (name, (t, c))" by (cases x) auto
  from Cons.prems(1) obtain fm where fm: "map_of typeNames t = Some fm" "fm = Fmt_s \<or> 0 < c"
    and flat: "flat_scheme rest"
    by (auto simp: flat_scheme_def x split: option.splits)
  have sz: "scheme_size (x # rest) = c * calcsize fm + scheme_size rest"
    by (simp add: scheme_size_def x fm)
  show ?case
  proof (cases "length (buf f) - pos f < c * calcsize fm")
    case True
    from bm_read_prim_short [OF fm(1) True, of fc e] show ?thesis
      by (cases "bm_read fc t c e f") (auto simp: x)
  next
    case False
    let ?f1 = "f\<lparr>pos := pos f + c * calcsize fm\<rparr>"
    from False have enough: "c * calcsize fm \<le> length (buf f) - pos f" by simp
    from Cons.prems(2) sz False have "length (buf ?f1) - pos ?f1 < scheme_size rest"
      by simp
    from Cons.IH [OF flat this] show ?thesis
      by (simp add: x bm_read_prim_ok [OF fm enough])
  qed
qed

lemma readStruct_loop_flat_pos:
  assumes "flat_scheme sch" and "readStruct_loop fc sch e res f = (Inr m, f')"
  shows "f' = f\<lparr>pos := pos f + scheme_size sch\<rparr> \<and> scheme_size sch \<le> length (buf f) - pos f"
proof (cases "scheme_size sch \<le> length (buf f) - pos f")
  case True
  from readStruct_loop_flat_ok [OF assms(1) True, of fc e res] assms(2) show ?thesis
    using True by auto
next
  case False
  then have "length (buf f) - pos f < scheme_size sch" by simp
  from readStruct_loop_flat_short [OF assms(1) this, of fc e res] assms(2) show ?thesis
    by simp
qed

lemma flat_Elf_Ident: "flat_scheme Elf_Ident" and size_Elf_Ident: "scheme_size Elf_Ident = 16"
  by (simp_all add: flat_scheme_def scheme_size_def Elf_Ident_def typeNames_def SELFMAG_def)

lemma flat_Elf32_Phdr: "flat_scheme Elf32_Phdr" and size_Elf32_Phdr: "scheme_size Elf32_Phdr = 32"
  by (simp_all add: flat_scheme_def scheme_size_def Elf32_Phdr_def typeNames_def)

lemma flat_Elf64_Phdr: "flat_scheme Elf64_Phdr" and size_Elf64_Phdr: "scheme_size Elf64_Phdr = 56"
  by (simp_all add: flat_scheme_def scheme_size_def Elf64_Phdr_def typeNames_def)

lemma flat_Elf32_Shdr: "flat_scheme Elf32_Shdr" and size_Elf32_Shdr: "scheme_size Elf32_Shdr = 40"
  by (simp_all add: flat_scheme_def scheme_size_def Elf32_Shdr_def typeNames_def)

lemma flat_Elf64_Shdr: "flat_scheme Elf64_Shdr" and size_Elf64_Shdr: "scheme_size Elf64_Shdr = 64"
  by (simp_all add: flat_scheme_def scheme_size_def Elf64_Shdr_def typeNames_def)

lemma unpack_int_single: "length bs \<le> 1 \<Longrightarrow> unpack_int sg l1 bs = unpack_int sg l2 bs"
  by (cases bs) (simp_all add: unpack_int_def)

lemma typeNames_uint8: "map_of typeNames ''uint8'' = Some Fmt_B"
  by (simp add: typeNames_def)

lemma typeNames_char: "map_of typeNames ''char'' = Some Fmt_s"
  by (simp add: typeNames_def)

lemma chunks_length: "x \<in> set (chunks w n xs) \<Longrightarrow> length x \<le> w"
  by (induction n arbitrary: xs) auto

lemma unpack_byte_endian:
  assumes "calcsize c = 1" and "\<not> is_float c"
  shows "unpack fc l1 n c data = unpack fc l2 n c data"
proof (cases "c = Fmt_s")
  case True
  then show ?thesis by (simp add: unpack_def)
next
  case False
  have "unpack1 fc l1 c x = unpack1 fc l2 c x" if "x \<in> set (chunks (calcsize c) n data)" for x
  proof -
    from that assms(1) have "length x \<le> 1" by (auto dest: chunks_length)
    then have "unpack_int (is_signed c) l1 x = unpack_int (is_signed c) l2 x"
      by (rule unpack_int_single)
    with assms(2) show ?thesis by (simp add: unpack1_def)
  qed
  with False show ?thesis by (simp add: unpack_def)
qed

lemma bm_read_byte_endian:
  assumes "map_of typeNames t = Some c" and "calcsize c = 1" and "\<not> is_float c"
  shows "bm_read fc t n e1 f = bm_read fc t n e2 f"
proof -
  have "unpack fc (e1 = VInt ELFDATA2LSB) n c data = unpack fc (e2 = VInt ELFDATA2LSB) n c data"
    for data
    by (rule unpack_byte_endian [OF assms(2,3)])
  then show ?thesis
    by (simp add: bm_read_prim [OF assms(1)] Let_def split: prod.splits)
qed

lemma readStruct_loop_byte_endian:
  "list_all byte_field sch \<Longrightarrow>
   readStruct_loop fc sch e1 res f = readStruct_loop fc sch e2 res f"
proof (induction sch arbitrary: res f)
  case Nil
  show ?case by simp
next
  case (Cons x rest)
  obtain name t c where x: "x = (name, (t, c))" by (cases x) auto
  from Cons.prems obtain fm where fm: "map_of typeNames t = Some fm" "calcsize fm = 1" "\<not> is_float fm"
    and rest: "list_all byte_field rest"
    by (auto simp: x split: option.splits)
  have rd: "bm_read fc t c e1 f = bm_read fc t c e2 f"
    by (rule bm_read_byte_endian [OF fm])
  show ?case
    by (cases "bm_read fc t c e2 f") (auto simp: x rd Cons.IH [OF rest] split: sum.splits)
qed

lemma byte_fields_Elf_Ident: "list_all byte_field Elf_Ident"
  by (simp add: Elf_Ident_def typeNames_def)

lemma readStruct_Elf_Ident_endian:
  "readStruct fc Elf_Ident e1 f = readStruct fc Elf_Ident e2 f"
  unfolding readStruct_def by (rule readStruct_loop_byte_endian [OF byte_fields_Elf_Ident])

text \<open>
  Claim C9. On a buffer of at least 16 bytes, \<open>readStruct\<close> of the identification
  block succeeds and yields the same field map (and leaves the same file) with
  \<open>ELFDATA2LSB\<close> as with \<open>ELFDATA2MSB\<close>.
\<close>

theorem ident_read_byte_order_irrelevant:
  assumes "16 \<le> length B"
  shows "\<exists>m. readStruct fc Elf_Ident (VInt ELFDATA2LSB) \<lparr>buf = B, pos = 0\<rparr>
               = (Inr m, \<lparr>buf = B, pos = 16\<rparr>)
           \<and> readStruct fc Elf_Ident (VInt ELFDATA2MSB) \<lparr>buf = B, pos = 0\<rparr>
               = (Inr m, \<lparr>buf = B, pos = 16\<rparr>)"
proof -
  have "scheme_size Elf_Ident \<le> length (buf \<lparr>buf = B, pos = 0\<rparr>) - pos \<lparr>buf = B, pos = 0\<rparr>"
    using assms by (simp add: size_Elf_Ident)
  from readStruct_loop_flat_ok [OF flat_Elf_Ident this, of fc "VInt ELFDATA2MSB" "[]"]
  obtain m where "readStruct fc Elf_Ident (VInt ELFDATA2MSB) \<lparr>buf = B, pos = 0\<rparr>
      = (Inr m, \<lparr>buf = B, pos = 16\<rparr>)"
    by (auto simp: readStruct_def size_Elf_Ident)
  then show ?thesis
    by (simp add: readStruct_Elf_Ident_endian [of fc "VInt ELFDATA2LSB" _ "VInt ELFDATA2MSB"])
qed

theorem ident_read_byte_order_irrelevant_witness:
  "16 \<le> length (replicate 16 (0::byte))
   \<and> (\<exists>m. readStruct no_floats Elf_Ident (VInt ELFDATA2LSB) \<lparr>buf = replicate 16 0, pos = 0\<rparr>
               = (Inr m, \<lparr>buf = replicate 16 0, pos = 16\<rparr>)
           \<and> readStruct no_floats Elf_Ident (VInt ELFDATA2MSB) \<lparr>buf = replicate 16 0, pos = 0\<rparr>
               = (Inr m, \<lparr>buf = replicate 16 0, pos = 16\<rparr>))"
  using ident_read_byte_order_irrelevant [of "replicate 16 0" no_floats] by simp

lemma length_chunks: "length (chunks w n xs) = n"
  by (induction n arbitrary: xs) simp_all

text \<open>
  Claim C10. For a numeric type and a count \<open>n > 1\<close>, with \<open>n\<close> times the width of
  the type left in the file, \<open>read\<close> moves the cursor by exactly that many bytes and
  returns the first of the \<open>n\<close> numbers that \<open>struct.unpack\<close> decodes, and nothing of
  the other \<open>n - 1\<close>.
\<close>

theorem read_count_returns_first:
  assumes "map_of typeNames t = Some c" and "c \<noteq> Fmt_s" and "1 < n"
    and "n * calcsize c \<le> length (buf f) - pos f"
  shows "bm_read fc t n e f =
           (Inr (unpack1 fc (e = VInt ELFDATA2LSB) c (take (calcsize c) (drop (pos f) (buf f)))),
            f\<lparr>pos := pos f + n * calcsize c\<rparr>)
         \<and> length (unpack fc (e = VInt ELFDATA2LSB) n c
               (take (n * calcsize c) (drop (pos f) (buf f)))) = n"
  using assms by (simp add: bm_read_prim_ok [OF assms(1) _ assms(4)] unpack_def length_chunks)

theorem read_count_returns_first_witness:
  "map_of typeNames ''uint16'' = Some Fmt_H \<and> Fmt_H \<noteq> Fmt_s \<and> (1::nat) < 2
   \<and> bm_read no_floats ''uint16'' 2 (VInt ELFDATA2LSB) \<lparr>buf = [1, 0, 2, 0], pos = 0\<rparr>
       = (Inr (VInt 1), \<lparr>buf = [1, 0, 2, 0], pos = 4\<rparr>)"
proof -
  have t: "map_of typeNames ''uint16'' = Some Fmt_H"
    by (simp add: typeNames_def)
  from read_count_returns_first [OF t, of 2 "\<lparr>buf = [1, 0, 2, 0], pos = 0\<rparr>" no_floats "VInt ELFDATA2LSB"]
  show ?thesis
    using t by (simp add: unpack1_def unpack_int_def)
qed

lemma bindE_Inr: "m s = (Inr a, s') \<Longrightarrow> bindE m k s = k a s'"
  by (simp add: bindE_def)

lemma bindE_Inl: "m s = (Inl e, s') \<Longrightarrow> bindE m k s = (Inl e, s')"
  by (simp add: bindE_def)

lemma bindE_liftE_Inr [simp]: "bindE (liftE (Inr a)) k s = k a s"
  by (simp add: bindE_def liftE_def)

lemma bindE_liftE_Inl [simp]: "bindE (liftE (Inl e)) k s = (Inl e, s)"
  by (simp add: bindE_def liftE_def)

lemma bindE_returnE [simp]: "bindE (returnE a) k s = k a s"
  by (simp add: bindE_def returnE_def)

lemma bindE_raiseE [simp]: "bindE (raiseE e) k s = (Inl e, s)"
  by (simp add: bindE_def raiseE_def)

lemma dict_get_Some [simp]: "map_of d k = Some v \<Longrightarrow> dict_get d k = Inr v"
  by (simp add: dict_get_def)

lemma dict_get_None [simp]: "map_of d k = None \<Longrightarrow> dict_get d k = Inl KeyError"
  by (simp add: dict_get_def)

text \<open>The loop of \<open>readStruct\<close> binds the names of its scheme and no other.\<close>

lemma readStruct_loop_other_keys:
  "readStruct_loop fc sch e res f = (Inr m, f') \<Longrightarrow> k \<notin> fst ` set sch \<Longrightarrow>
   map_of m k = map_of res k"
proof (induction sch arbitrary: res f)
  case Nil
  then show ?case by simp
next
  case (Cons x rest)
  obtain name t c where x: "x = (name, (t, c))" by (cases x) auto
  from Cons.prems(2) have k: "k \<noteq> name" "k \<notin> fst ` set rest" by (auto simp: x)
  from Cons.prems(1) obtain v f1 where
    "readStruct_loop fc rest e (AList.update name v res) f1 = (Inr m, f')"
    by (auto simp: x split: prod.splits sum.splits)
  from Cons.IH [OF this k(2)] k(1) show ?case
    by (simp add: update_conv')
qed

lemma bm_read_prim_short_pos:
  assumes "map_of typeNames t = Some c"
    and "length (buf f) - pos f < n * calcsize c"
  shows "bm_read fc t n e f = (Inl TruncatedInput, f\<lparr>pos := max (pos f) (length (buf f))\<rparr>)"
  using assms(2) by (simp add: bm_read_prim [OF assms(1)] file_read_def Let_def max_def)

lemma readStruct_loop_flat_short_pos:
  "flat_scheme sch \<Longrightarrow> length (buf f) - pos f < scheme_size sch \<Longrightarrow>
   readStruct_loop fc sch e res f = (Inl TruncatedInput, f\<lparr>pos := max (pos f) (length (buf f))\<rparr>)"
proof (induction sch arbitrary: res f)
  case Nil
  then show ?case by (simp add: scheme_size_def)
next
  case (Cons x rest)
  obtain name t c where x: "x = (name, (t, c))" by (cases x) auto
  from Cons.prems(1) obtain fm where fm: "map_of typeNames t = Some fm" "fm = Fmt_s \<or> 0 < c"
    and flat: "flat_scheme rest"
    by (auto simp: flat_scheme_def x split: option.splits)
  have sz: "scheme_size (x # rest) = c * calcsize fm + scheme_size rest"
    by (simp add: scheme_size_def x fm)
  show ?case
  proof (cases "length (buf f) - pos f < c * calcsize fm")
    case True
    from bm_read_prim_short_pos [OF fm(1) True, of fc e] show ?thesis
      by (simp add: x)
  next
    case False
    let ?f1 = "f\<lparr>pos := pos f + c * calcsize fm\<rparr>"
    from False have enough: "c * calcsize fm \<le> length (buf f) - pos f" by simp
    from Cons.prems(2) sz False have "length (buf ?f1) - pos ?f1 < scheme_size rest"
      by simp
    moreover have "max (pos ?f1) (length (buf ?f1)) = max (pos f) (length (buf f))"
      using enough by (cases "pos f \<le> length (buf f)") (simp_all add: max_def)
    ultimately have "readStruct_loop fc rest e r ?f1
        = (Inl TruncatedInput, f\<lparr>pos := max (pos f) (length (buf f))\<rparr>)" for r
      using Cons.IH [OF flat, of ?f1 r] by simp
    then show ?thesis
      by (simp add: x bm_read_prim_ok [OF fm enough])
  qed
qed

lemma readStruct_Elf_Ident_magic:
  assumes "16 \<le> length (buf f) - pos f"
  shows "\<exists>m. readStruct fc Elf_Ident e f = (Inr m, f\<lparr>pos := pos f + 16\<rparr>)
           \<and> map_of m ''ELF_MAG'' = Some (VBytes (take 4 (drop (pos f) (buf f))))"
proof -
  define rest :: scheme where "rest =
    [(''EI_CLASS'', (''uint8'', 1)), (''EI_DATA'', (''uint8'', 1)), (''EI_VERSION'', (''uint8'', 1)),
     (''EI_OSABI'', (''uint8'', 1)), (''EI_ABIVERSION'', (''uint8'', 1)), (''EI_PAD'', (''char'', 7))]"
  have ident: "Elf_Ident = (''ELF_MAG'', (''char'', 4)) # rest"
    by (simp add: Elf_Ident_def rest_def SELFMAG_def)
  have flat: "flat_scheme rest" and size: "scheme_size rest = 12"
    by (simp_all add: rest_def flat_scheme_def scheme_size_def typeNames_def)
  have names: "''ELF_MAG'' \<notin> fst ` set rest"
    by (simp add: rest_def)
  let ?v = "VBytes (take 4 (drop (pos f) (buf f))) :: 'a val"
  let ?f1 = "f\<lparr>pos := pos f + 4\<rparr>"
  have mag: "bm_read fc ''char'' 4 e f = (Inr ?v, ?f1)"
    using assms by (simp add: bm_read_prim_ok [OF typeNames_char])
  have "scheme_size rest \<le> length (buf ?f1) - pos ?f1"
    using assms by (simp add: size)
  from readStruct_loop_flat_ok [OF flat this, of fc e "AList.update ''ELF_MAG'' ?v []"]
  obtain m where m: "readStruct_loop fc rest e (AList.update ''ELF_MAG'' ?v []) ?f1
      = (Inr m, f\<lparr>pos := pos f + 16\<rparr>)"
    by (auto simp: size)
  from readStruct_loop_other_keys [OF m names] have "map_of m ''ELF_MAG'' = Some ?v"
    by simp
  with m mag show ?thesis
    by (simp add: readStruct_def ident)
qed

section \<open>Properties of parsing\<close>

text \<open>
  Claim C3, as the code has it. A buffer whose first 4 bytes are not the signature is
  rejected only after \<open>readStruct\<close> has read the whole identification block: with
  MagicMismatch and the cursor at 16 when the buffer has 16 bytes or more, and with
  TruncatedInput and the cursor at the end of the buffer when it is shorter.
\<close>

theorem magic_gate_reads_ident:
  assumes "take 4 B \<noteq> ELFMAG"
  shows "ELF fc B =
     (if 16 \<le> length B then (Inl MagicMismatch, \<lparr>buf = B, pos = 16\<rparr>)
      else (Inl TruncatedInput, \<lparr>buf = B, pos = length B\<rparr>))"
proof (cases "16 \<le> length B")
  case True
  let ?f = "\<lparr>buf = B, pos = 0\<rparr>"
  from True have "16 \<le> length (buf ?f) - pos ?f" by simp
  from readStruct_Elf_Ident_magic [OF this, of fc "VInt ELFDATA2MSB"]
  obtain m where m: "readStruct fc Elf_Ident (VInt ELFDATA2MSB) ?f = (Inr m, \<lparr>buf = B, pos = 16\<rparr>)"
    and mag: "map_of m ''ELF_MAG'' = Some (VBytes (take 4 B))"
    by auto
  have "parse_ident fc ?f = (Inl MagicMismatch, \<lparr>buf = B, pos = 16\<rparr>)"
    using assms by (simp add: parse_ident_def bindE_def m mag raiseE_def liftE_def)
  with True show ?thesis
    by (simp add: ELF_def ELF_parse_def bindE_def)
next
  case False
  let ?f = "\<lparr>buf = B, pos = 0\<rparr>"
  from False have "length (buf ?f) - pos ?f < scheme_size Elf_Ident"
    by (simp add: size_Elf_Ident)
  from readStruct_loop_flat_short_pos [OF flat_Elf_Ident this, of fc "VInt ELFDATA2MSB" "[]"]
  have "readStruct fc Elf_Ident (VInt ELFDATA2MSB) ?f = (Inl TruncatedInput, \<lparr>buf = B, pos = length B\<rparr>)"
    by (simp add: readStruct_def)
  then have "parse_ident fc ?f = (Inl TruncatedInput, \<lparr>buf = B, pos = length B\<rparr>)"
    by (simp add: parse_ident_def bindE_def)
  with False show ?thesis
    by (simp add: ELF_def ELF_parse_def bindE_def)
qed

theorem magic_gate_reads_ident_witness:
  "take 4 zero_block \<noteq> ELFMAG
   \<and> ELF no_floats zero_block = (Inl MagicMismatch, \<lparr>buf = zero_block, pos = 16\<rparr>)"
proof -
  have h: "take 4 zero_block \<noteq> ELFMAG"
    by (simp add: ELFMAG_def zero_block_def)
  have l: "length zero_block = 16"
    by (simp add: zero_block_def)
  from magic_gate_reads_ident [OF h, of no_floats] h l show ?thesis
    by simp
qed

text \<open>
  Claim C3 as stated fails: the four bytes \<open>00 00 00 00\<close> are not the signature and
  parsing them ends in TruncatedInput, not MagicMismatch; on sixteen zero bytes the
  cursor stands at 16, past offset 4, when the magic is rejected.
\<close>

theorem magic_gate_counterexample:
  "take 4 [0, 0, 0, 0 :: byte] \<noteq> ELFMAG
   \<and> fst (ELF no_floats [0, 0, 0, 0]) = Inl TruncatedInput
   \<and> take 4 zero_block \<noteq> ELFMAG
   \<and> pos (snd (ELF no_floats zero_block)) = 16"
  by code_simp




lemma parse_ident_Inr:
  assumes "parse_ident fc f0 = (Inr (ident, endian), f)"
  shows "readStruct fc Elf_Ident (VInt ELFDATA2MSB) f0 = (Inr ident, f)"
    and "map_of ident ''ELF_MAG'' = Some (VBytes ELFMAG)"
    and "map_of ident ''EI_VERSION'' = Some (VInt EV_CURRENT)"
    and "map_of ident ''EI_DATA'' = Some endian"
  using assms
  by (auto simp: parse_ident_def bindE_def liftE_def returnE_def raiseE_def dict_get_def
      split: prod.splits sum.splits option.splits if_splits)




text \<open>Reading moves the cursor and leaves the bytes alone.\<close>

lemma read_keeps_buf:
  "bm_read fc t c e f = (r, f') \<Longrightarrow> buf f' = buf f"
  "readStruct_loop fc sch e res f = (r', f') \<Longrightarrow> buf f' = buf f"
proof (induction fc t c e f and fc sch e res f arbitrary: r f' and r' f'
    rule: bm_read_readStruct_loop.induct)
  case (1 fc typeName count endian f)
  show ?case
  proof (cases "typeName \<in> set schemes")
    case True
    show ?thesis
    proof (cases "globals typeName")
      case None
      with True "1.prems" show ?thesis by (simp add: bm_read.simps)
    next
      case (Some sch)
      obtain r1 f1 where l: "readStruct_loop fc sch endian [] f = (r1, f1)"
        by (cases "readStruct_loop fc sch endian [] f")
      from "1.IH" [OF True Some l] have "buf f1 = buf f" .
      with True Some l "1.prems" show ?thesis
        by (auto simp: bm_read.simps split: sum.splits)
    qed
  next
    case False
    with "1.prems" show ?thesis
      by (auto simp: bm_read.simps file_read_def Let_def split: option.splits if_splits list.splits)
  qed
next
  case (2 fc endian res f)
  then show ?case by simp
next
  case (3 fc name typename count rest endian res f)
  obtain r1 f1 where rd: "bm_read fc typename count endian f = (r1, f1)"
    by (cases "bm_read fc typename count endian f")
  from "3.IH"(1) [OF rd] have b1: "buf f1 = buf f" .
  show ?case
  proof (cases r1)
    case (Inl err)
    with rd "3.prems" b1 show ?thesis by simp
  next
    case (Inr v)
    from "3.prems" rd Inr
    have "readStruct_loop fc rest endian (AList.update name v res) f1 = (r', f')" by simp
    from "3.IH"(2) [OF rd [symmetric] Inr this] b1 show ?thesis by simp
  qed
qed

lemma readStruct_keeps_buf: "readStruct fc sch e f = (r, f') \<Longrightarrow> buf f' = buf f"
  unfolding readStruct_def by (rule read_keeps_buf(2))

text \<open>An unsigned field never holds a negative integer.\<close>

lemma unpack_int_unsigned: "0 \<le> unpack_int False little bs"
  by (simp add: unpack_int_def)

lemma bm_read_nonneg:
  assumes "bm_read fc t c e f = (Inr v, f')" and "unsigned_field (name, (t, c))"
  shows "nonneg_val v"
proof (cases "t \<in> set schemes")
  case True
  with assms(1) show ?thesis
    by (auto simp: bm_read.simps split: option.splits prod.splits sum.splits)
next
  case False
  with assms(2) obtain fm where fm: "map_of typeNames t = Some fm" "\<not> is_signed fm"
    by (auto split: option.splits)
  from assms(1) obtain data vs where "unpack fc (e = VInt ELFDATA2LSB) c fm data = v # vs"
    by (auto simp: bm_read_prim [OF fm(1)] Let_def split: prod.splits if_splits list.splits)
  then have "v \<in> set (unpack fc (e = VInt ELFDATA2LSB) c fm data)" by simp
  with fm(2) show ?thesis
    by (auto simp: unpack_def unpack1_def unpack_int_unsigned split: if_splits)
qed

lemma readStruct_loop_nonneg:
  "list_all unsigned_field sch \<Longrightarrow> readStruct_loop fc sch e res f = (Inr m, f') \<Longrightarrow>
   (\<And>k v. map_of res k = Some v \<Longrightarrow> nonneg_val v) \<Longrightarrow> map_of m k = Some v \<Longrightarrow> nonneg_val v"
proof (induction sch arbitrary: res f)
  case Nil
  then show ?case by simp
next
  case (Cons x rest)
  obtain name t c where x: "x = (name, (t, c))" by (cases x) auto
  from Cons.prems(2) obtain v1 f1 where rd: "bm_read fc t c e f = (Inr v1, f1)"
    and loop: "readStruct_loop fc rest e (AList.update name v1 res) f1 = (Inr m, f')"
    by (auto simp: x split: prod.splits sum.splits)
  from Cons.prems(1) have u: "unsigned_field (name, (t, c))" and rest: "list_all unsigned_field rest"
    by (simp_all add: x)
  have "nonneg_val v1" by (rule bm_read_nonneg [OF rd u])
  then have "nonneg_val w" if "map_of (AList.update name v1 res) k' = Some w" for k' w
    using that Cons.prems(3) by (auto simp: update_conv' split: if_splits)
  from Cons.IH [OF rest loop this Cons.prems(4)] show ?case .
qed

lemma unsigned_Elf32_Ehdr: "list_all unsigned_field Elf32_Ehdr"
  by (simp add: Elf32_Ehdr_def schemes_def typeNames_def)

lemma unsigned_Elf64_Ehdr: "list_all unsigned_field Elf64_Ehdr"
  by (simp add: Elf64_Ehdr_def schemes_def typeNames_def)


lemma read_entries_flat_Inr:
  "flat_scheme sch \<Longrightarrow> read_entries fc sch e n entries f = (Inr es, f') \<Longrightarrow>
   f' = f\<lparr>pos := pos f + n * scheme_size sch\<rparr>
   \<and> length es = length entries + n
   \<and> take (length entries) es = entries
   \<and> (\<forall>i<n. readStruct fc sch e (f\<lparr>pos := pos f + i * scheme_size sch\<rparr>)
          = (Inr (es ! (length entries + i)), f\<lparr>pos := pos f + i * scheme_size sch + scheme_size sch\<rparr>))"
proof (induction n arbitrary: entries f)
  case 0
  then show ?case by simp
next
  case (Suc n)
  from Suc.prems(2) obtain m f1 where m: "readStruct fc sch e f = (Inr m, f1)"
    and rest: "read_entries fc sch e n (entries @ [m]) f1 = (Inr es, f')"
    by (auto split: prod.splits sum.splits)
  from readStruct_loop_flat_pos [OF Suc.prems(1) m [unfolded readStruct_def]]
  have f1: "f1 = f\<lparr>pos := pos f + scheme_size sch\<rparr>" by simp
  from Suc.IH [OF Suc.prems(1) rest]
  have pos': "f' = f1\<lparr>pos := pos f1 + n * scheme_size sch\<rparr>"
    and len: "length es = length (entries @ [m]) + n"
    and pre: "take (length (entries @ [m])) es = entries @ [m]"
    and ents: "\<forall>i<n. readStruct fc sch e (f1\<lparr>pos := pos f1 + i * scheme_size sch\<rparr>)
          = (Inr (es ! (length (entries @ [m]) + i)),
             f1\<lparr>pos := pos f1 + i * scheme_size sch + scheme_size sch\<rparr>)"
    by blast+
  from pre have pre1: "take (length entries) es = entries"
    by (metis append_eq_conv_conj length_append_singleton take_Suc_conv_app_nth
        butlast_snoc butlast_take diff_Suc_1 len le_add1 length_append)
  from pre len have nth0: "es ! length entries = m"
    by (metis length_append_singleton lessI nth_append_length nth_take)
  have "readStruct fc sch e (f\<lparr>pos := pos f + i * scheme_size sch\<rparr>)
          = (Inr (es ! (length entries + i)), f\<lparr>pos := pos f + i * scheme_size sch + scheme_size sch\<rparr>)"
    if "i < Suc n" for i
  proof (cases i)
    case 0
    with m f1 nth0 show ?thesis by simp
  next
    case (Suc j)
    with that have "j < n" by simp
    with ents f1 Suc show ?thesis by (simp add: add.assoc add.commute add.left_commute)
  qed
  with pos' f1 len pre1 show ?case by (simp add: add.assoc)
qed

text \<open>What a successful step has done.\<close>

lemma bindE_Inr_iff:
  "bindE m k s = (Inr b, s2) \<longleftrightarrow> (\<exists>a s1. m s = (Inr a, s1) \<and> k a s1 = (Inr b, s2))"
  by (auto simp: bindE_def split: prod.splits sum.splits)

lemma liftE_Inr_iff: "liftE r s = (Inr a, s1) \<longleftrightarrow> r = Inr a \<and> s1 = s"
  by (auto simp: liftE_def)

lemma returnE_Inr_iff: "returnE a s = (Inr b, s1) \<longleftrightarrow> b = a \<and> s1 = s"
  by (auto simp: returnE_def)

lemma raiseE_Inr_iff: "raiseE e s = (Inr b, s1) \<longleftrightarrow> False"
  by (simp add: raiseE_def)

lemma dict_get_Inr_iff: "dict_get d k = Inr v \<longleftrightarrow> map_of d k = Some v"
  by (simp add: dict_get_def split: option.splits)

lemma bm_seek_Inr_iff:
  "bm_seek v f = (Inr u, f1) \<longleftrightarrow> (\<exists>n. v = VInt n \<and> 0 \<le> n \<and> f1 = f\<lparr>pos := nat n\<rparr>)"
  by (cases v) (auto simp: file_seek_def)

lemma range_len_Inr_iff: "range_len v = Inr n \<longleftrightarrow> (\<exists>k. v = VInt k \<and> n = nat k)"
  by (cases v) auto

lemmas step_Inr_iffs =
  bindE_Inr_iff liftE_Inr_iff returnE_Inr_iff raiseE_Inr_iff dict_get_Inr_iff bm_seek_Inr_iff
  range_len_Inr_iff

lemma parse_header_Inr:
  assumes "parse_header fc ident endian f1 = (Inr (ph, sh, hdr), f2)"
  shows "(map_of ident ''EI_CLASS'' = Some (VInt ELFCLASS32) \<and> ph = Elf32_Phdr \<and> sh = Elf32_Shdr
            \<and> readStruct fc Elf32_Ehdr endian (f1\<lparr>pos := 0\<rparr>) = (Inr hdr, f2))
       \<or> (map_of ident ''EI_CLASS'' = Some (VInt ELFCLASS64) \<and> ph = Elf64_Phdr \<and> sh = Elf64_Shdr
            \<and> readStruct fc Elf64_Ehdr endian (f1\<lparr>pos := 0\<rparr>) = (Inr hdr, f2))"
  using assms unfolding parse_header_def
  by (auto simp: step_Inr_iffs file_seek_def split: if_splits)

lemma parse_tables_Inr:
  assumes "parse_tables fc ph sh endian ident hdr f2 = (Inr m, f)"
  shows "\<exists>phoff phnum shoff shnum f3.
     map_of hdr ''e_phoff'' = Some (VInt phoff) \<and> 0 \<le> phoff
   \<and> map_of hdr ''e_phnum'' = Some (VInt phnum)
   \<and> map_of hdr ''e_shoff'' = Some (VInt shoff) \<and> 0 \<le> shoff
   \<and> map_of hdr ''e_shnum'' = Some (VInt shnum)
   \<and> read_entries fc ph endian (nat phnum) [] (f2\<lparr>pos := nat phoff\<rparr>) = (Inr (phdrs m), f3)
   \<and> read_entries fc sh endian (nat shnum) [] (f3\<lparr>pos := nat shoff\<rparr>) = (Inr (shdrs m), f)
   \<and> e_ident m = ident \<and> ehdr m = hdr"
  using assms unfolding parse_tables_def
  by (auto simp: step_Inr_iffs)

lemma ELF_Inr:
  assumes "ELF fc B = (Inr m, f)"
  shows "\<exists>ident endian f1 ph sh hdr f2.
     parse_ident fc \<lparr>buf = B, pos = 0\<rparr> = (Inr (ident, endian), f1)
   \<and> parse_header fc ident endian f1 = (Inr (ph, sh, hdr), f2)
   \<and> parse_tables fc ph sh endian ident hdr f2 = (Inr m, f)"
  using assms unfolding ELF_def ELF_parse_def parse_body_def
  by (auto simp: step_Inr_iffs)

lemma parse_ident_keeps_buf:
  assumes "parse_ident fc f0 = (Inr (ident, endian), f1)"
  shows "buf f1 = buf f0"
  using readStruct_keeps_buf [OF parse_ident_Inr(1) [OF assms]] .

lemma parse_header_facts:
  assumes "parse_header fc ident endian f1 = (Inr (ph, sh, hdr), f2)"
  shows "buf f2 = buf f1"
    and "(map_of ident ''EI_CLASS'' = Some (VInt ELFCLASS32) \<and> ph = Elf32_Phdr \<and> sh = Elf32_Shdr)
       \<or> (map_of ident ''EI_CLASS'' = Some (VInt ELFCLASS64) \<and> ph = Elf64_Phdr \<and> sh = Elf64_Shdr)"
    and "map_of hdr k = Some v \<Longrightarrow> nonneg_val v"
proof -
  from parse_header_Inr [OF assms] consider
      (c32) "map_of ident ''EI_CLASS'' = Some (VInt ELFCLASS32)" "ph = Elf32_Phdr" "sh = Elf32_Shdr"
        "readStruct fc Elf32_Ehdr endian (f1\<lparr>pos := 0\<rparr>) = (Inr hdr, f2)"
    | (c64) "map_of ident ''EI_CLASS'' = Some (VInt ELFCLASS64)" "ph = Elf64_Phdr" "sh = Elf64_Shdr"
        "readStruct fc Elf64_Ehdr endian (f1\<lparr>pos := 0\<rparr>) = (Inr hdr, f2)"
    by blast
  then have "buf f2 = buf f1
    \<and> ((map_of ident ''EI_CLASS'' = Some (VInt ELFCLASS32) \<and> ph = Elf32_Phdr \<and> sh = Elf32_Shdr)
       \<or> (map_of ident ''EI_CLASS'' = Some (VInt ELFCLASS64) \<and> ph = Elf64_Phdr \<and> sh = Elf64_Shdr))
    \<and> (map_of hdr k = Some v \<longrightarrow> nonneg_val v)"
  proof cases
    case c32
    from readStruct_keeps_buf [OF c32(4)] have "buf f2 = buf f1" by simp
    moreover have "nonneg_val v" if "map_of hdr k = Some v"
      by (rule readStruct_loop_nonneg [OF unsigned_Elf32_Ehdr c32(4) [unfolded readStruct_def] _ that])
        simp
    ultimately show ?thesis using c32 by simp
  next
    case c64
    from readStruct_keeps_buf [OF c64(4)] have "buf f2 = buf f1" by simp
    moreover have "nonneg_val v" if "map_of hdr k = Some v"
      by (rule readStruct_loop_nonneg [OF unsigned_Elf64_Ehdr c64(4) [unfolded readStruct_def] _ that])
        simp
    ultimately show ?thesis using c64 by simp
  qed
  then show "buf f2 = buf f1"
    and "(map_of ident ''EI_CLASS'' = Some (VInt ELFCLASS32) \<and> ph = Elf32_Phdr \<and> sh = Elf32_Shdr)
       \<or> (map_of ident ''EI_CLASS'' = Some (VInt ELFCLASS64) \<and> ph = Elf64_Phdr \<and> sh = Elf64_Shdr)"
    and "map_of hdr k = Some v \<Longrightarrow> nonneg_val v"
    by blast+
qed



lemma bytesio_pos_update: "buf f = B \<Longrightarrow> f\<lparr>pos := n\<rparr> = \<lparr>buf = B, pos = n\<rparr>"
  by (cases f) simp

text \<open>
  Claim C8. After a successful parse the program-header sequence is as long as the
  header's \<open>e_phnum\<close> says and the section-header sequence as long as \<open>e_shnum\<close>
  says; the class byte is 1 or 2, and entry \<open>i\<close> of the program headers is what
  \<open>readStruct\<close> decodes from the 32 bytes (class 1) or the 56 bytes (class 2) that start
  at \<open>e_phoff\<close> plus \<open>i\<close> times that size.
\<close>

theorem parsed_tables_match_header:
  assumes "ELF fc B = (Inr m, f)"
    and "map_of (e_ident m) ''EI_DATA'' = Some endian"
    and "map_of (ehdr m) ''e_phoff'' = Some (VInt phoff)"
  shows "map_of (ehdr m) ''e_phnum'' = Some (VInt (int (length (phdrs m))))
       \<and> map_of (ehdr m) ''e_shnum'' = Some (VInt (int (length (shdrs m))))
       \<and> ((map_of (e_ident m) ''EI_CLASS'' = Some (VInt ELFCLASS32)
            \<and> (\<forall>i<length (phdrs m).
                  readStruct fc Elf32_Phdr endian \<lparr>buf = B, pos = nat phoff + i * 32\<rparr>
                    = (Inr (phdrs m ! i), \<lparr>buf = B, pos = nat phoff + i * 32 + 32\<rparr>)))
          \<or> (map_of (e_ident m) ''EI_CLASS'' = Some (VInt ELFCLASS64)
            \<and> (\<forall>i<length (phdrs m).
                  readStruct fc Elf64_Phdr endian \<lparr>buf = B, pos = nat phoff + i * 56\<rparr>
                    = (Inr (phdrs m ! i), \<lparr>buf = B, pos = nat phoff + i * 56 + 56\<rparr>))))"
proof -
  from ELF_Inr [OF assms(1)] obtain ident e f1 ph sh hdr f2 where
    pi: "parse_ident fc \<lparr>buf = B, pos = 0\<rparr> = (Inr (ident, e), f1)"
    and ph: "parse_header fc ident e f1 = (Inr (ph, sh, hdr), f2)"
    and pt: "parse_tables fc ph sh e ident hdr f2 = (Inr m, f)"
    by blast
  from parse_tables_Inr [OF pt] obtain phoff' phnum shoff shnum f3 where
    t: "map_of hdr ''e_phoff'' = Some (VInt phoff')" "0 \<le> phoff'"
      "map_of hdr ''e_phnum'' = Some (VInt phnum)"
      "map_of hdr ''e_shoff'' = Some (VInt shoff)" "0 \<le> shoff"
      "map_of hdr ''e_shnum'' = Some (VInt shnum)"
      "read_entries fc ph e (nat phnum) [] (f2\<lparr>pos := nat phoff'\<rparr>) = (Inr (phdrs m), f3)"
      "read_entries fc sh e (nat shnum) [] (f3\<lparr>pos := nat shoff\<rparr>) = (Inr (shdrs m), f)"
      "e_ident m = ident" "ehdr m = hdr"
    by blast
  from assms(3) t(1,10) have phoff: "phoff' = phoff" by simp
  from assms(2) t(9) parse_ident_Inr(4) [OF pi] have e: "e = endian" by simp
  have b2: "buf f2 = B"
    using parse_header_facts(1) [OF ph] parse_ident_keeps_buf [OF pi] by simp
  from parse_header_facts(3) [OF ph t(3)] have phnum: "0 \<le> phnum" by simp
  from parse_header_facts(3) [OF ph t(6)] have shnum: "0 \<le> shnum" by simp
  have cls: "ELFCLASS64 \<noteq> ELFCLASS32" by (simp add: ELFCLASS64_def ELFCLASS32_def)
  from parse_header_facts(2) [OF ph]
  have flat: "flat_scheme ph" "flat_scheme sh"
    by (auto simp: flat_Elf32_Phdr flat_Elf64_Phdr flat_Elf32_Shdr flat_Elf64_Shdr)
  note f2 = bytesio_pos_update [OF b2]
  from read_entries_flat_Inr [OF flat(1) t(7)]
  have lp: "length (phdrs m) = nat phnum"
    and ents: "\<forall>i<nat phnum. readStruct fc ph e \<lparr>buf = B, pos = nat phoff + i * scheme_size ph\<rparr>
          = (Inr (phdrs m ! i), \<lparr>buf = B, pos = nat phoff + i * scheme_size ph + scheme_size ph\<rparr>)"
    by (simp_all add: f2 phoff)
  from read_entries_flat_Inr [OF flat(2) t(8)]
  have ls: "length (shdrs m) = nat shnum"
    by simp
  have n1: "map_of (ehdr m) ''e_phnum'' = Some (VInt (int (length (phdrs m))))"
    using t(3,10) lp phnum by simp
  have n2: "map_of (ehdr m) ''e_shnum'' = Some (VInt (int (length (shdrs m))))"
    using t(6,10) ls shnum by simp
  from parse_header_facts(2) [OF ph] show ?thesis
  proof (elim disjE conjE)
    assume "map_of ident ''EI_CLASS'' = Some (VInt ELFCLASS32)" "ph = Elf32_Phdr"
    with ents lp e t(9) n1 n2 show ?thesis
      by (simp add: size_Elf32_Phdr)
  next
    assume "map_of ident ''EI_CLASS'' = Some (VInt ELFCLASS64)" "ph = Elf64_Phdr"
    with ents lp e t(9) n1 n2 show ?thesis
      by (simp add: size_Elf64_Phdr)
  qed
qed

theorem parsed_tables_match_header_witness:
  "ELF no_floats two_tables = (Inr two_tables_model, \<lparr>buf = two_tables, pos = 124\<rparr>)
   \<and> map_of (ehdr two_tables_model) ''e_phnum'' = Some (VInt (int (length (phdrs two_tables_model))))
   \<and> map_of (ehdr two_tables_model) ''e_shnum'' = Some (VInt (int (length (shdrs two_tables_model))))
   \<and> length (phdrs two_tables_model) = 1
   \<and> length (shdrs two_tables_model) = 1"
proof -
  have h1: "ELF no_floats two_tables = (Inr two_tables_model, \<lparr>buf = two_tables, pos = 124\<rparr>)"
    by code_simp
  have h2: "map_of (e_ident two_tables_model) ''EI_DATA'' = Some (VInt 1)"
    and h3: "map_of (ehdr two_tables_model) ''e_phoff'' = Some (VInt 52)"
    by (simp_all add: two_tables_model_def ident_model_def ehdr_model_def)
  from parsed_tables_match_header [OF h1 h2 h3]
  have "map_of (ehdr two_tables_model) ''e_phnum'' = Some (VInt (int (length (phdrs two_tables_model))))"
    and "map_of (ehdr two_tables_model) ''e_shnum'' = Some (VInt (int (length (shdrs two_tables_model))))"
    by blast+
  with h1 show ?thesis
    by (simp add: two_tables_model_def)
qed

section \<open>Writing back what was read\<close>

text \<open>The bytes at the cursor, and writes.\<close>

lemma next_bytes_add: "next_bytes (a + b) f = next_bytes a f @ next_bytes b (f\<lparr>pos := pos f + a\<rparr>)"
  by (simp add: next_bytes_def take_add add.commute)

lemma next_bytes_eq_split:
  assumes "next_bytes (a + b) g = next_bytes (a + b) f"
  shows "next_bytes a g = next_bytes a f" and "next_bytes b (g\<lparr>pos := pos g + a\<rparr>) = next_bytes b (f\<lparr>pos := pos f + a\<rparr>)"
proof -
  have "take a (next_bytes (a + b) h) = next_bytes a h" for h
    by (simp add: next_bytes_def min_def)
  with assms show "next_bytes a g = next_bytes a f" by metis
  have "drop a (next_bytes (a + b) h) = next_bytes b (h\<lparr>pos := pos h + a\<rparr>)" for h
    by (simp add: next_bytes_def drop_take add.commute)
  with assms show "next_bytes b (g\<lparr>pos := pos g + a\<rparr>) = next_bytes b (f\<lparr>pos := pos f + a\<rparr>)" by metis
qed


lemma file_write_append: "file_write b2 (file_write b1 f) = file_write (b1 @ b2) f"
proof (cases "b1 = [] \<or> b2 = []")
  case True
  then show ?thesis by (auto simp: file_write_def)
next
  case False
  then show ?thesis
    by (cases "pos f \<le> length (buf f)")
      (auto simp: file_write_def Let_def min_def add.assoc add.commute add.left_commute)
qed


text \<open>Packing an integer that was unpacked gives the bytes back.\<close>

lemma unat_byte_less: "unat (b :: byte) < 256"
proof -
  have "unat b < 2 ^ LENGTH(8)" by (rule unsigned_less)
  then show ?thesis by simp
qed

lemma le_nat_bound: "le_nat bs < 256 ^ length bs"
proof (induction bs)
  case Nil
  show ?case by simp
next
  case (Cons b bs)
  from Cons have "Suc (le_nat bs) \<le> 256 ^ length bs" by simp
  then have "256 * Suc (le_nat bs) \<le> 256 * 256 ^ length bs" by (rule mult_le_mono2)
  with unat_byte_less [of b] show ?case by simp
qed

lemma le_bytes_le_nat: "le_bytes (length bs) (le_nat bs) = bs"
proof (induction bs)
  case Nil
  show ?case by simp
next
  case (Cons b bs)
  from unat_byte_less [of b]
  have "(unat b + 256 * le_nat bs) mod 256 = unat b"
    and "(unat b + 256 * le_nat bs) div 256 = le_nat bs"
    by simp_all
  with Cons show ?case by simp
qed

lemma pow256: "(256::nat) ^ n = 2 ^ (8 * n)"
  by (simp add: power_mult)

lemma pack_int_unpack_int:
  assumes "0 < length bs"
  shows "pack_int sg little (length bs) (unpack_int sg little bs) = Some bs"
proof -
  define xs where "xs = (if little then bs else rev bs)"
  have len: "length xs = length bs" by (simp add: xs_def)
  define n where "n = int (le_nat xs)"
  define w where "w = length bs"
  define h :: int where "h = 2 ^ (8 * w - 1)"
  define m :: int where "m = 2 ^ (8 * w)"
  have n0: "0 \<le> n" by (simp add: n_def)
  have "le_nat xs < 2 ^ (8 * w)"
    using le_nat_bound [of xs] by (simp add: pow256 len w_def)
  then have "int (le_nat xs) < int (2 ^ (8 * w))"
    by (simp only: of_nat_less_iff)
  then have nb: "n < m"
    by (simp add: n_def m_def)
  from assms obtain k where k: "8 * w = Suc k"
    by (cases "8 * w") (auto simp: w_def)
  have half: "m = 2 * h"
    by (simp add: m_def h_def k)
  define v where "v = unpack_int sg little bs"
  have v: "v = (if sg \<and> h \<le> n then n - m else n)"
    by (simp add: v_def unpack_int_def xs_def n_def w_def h_def m_def Let_def)
  have range: "(if sg then - h \<le> v \<and> v < h else 0 \<le> v \<and> v < m)"
    using n0 nb half by (auto simp: v)
  have "v mod m = n"
  proof (cases "sg \<and> h \<le> n")
    case True
    then have "v mod m = (n - m) mod m" by (simp add: v)
    also have "\<dots> = n mod m" by simp
    also have "\<dots> = n" using n0 nb by simp
    finally show ?thesis .
  next
    case False
    with n0 nb show ?thesis by (simp add: v)
  qed
  then have "le_bytes w (nat (v mod m)) = xs"
    using le_bytes_le_nat [of xs] by (simp add: n_def len w_def)
  moreover have "(if little then xs else rev xs) = bs"
    by (simp add: xs_def)
  ultimately have "pack_int sg little w v = Some bs"
    using range unfolding pack_int_def h_def m_def by (simp add: Let_def)
  then show ?thesis
    by (simp add: v_def w_def)
qed

lemma calcsize_pos: "0 < calcsize c"
  by (cases c) simp_all

text \<open>A successful read depends only on the bytes it consumes.\<close>

lemma reads_asI:
  assumes "f' = f\<lparr>pos := pos f + n\<rparr>" and "length (next_bytes n f) = n"
    and "\<And>g. next_bytes n g = next_bytes n f \<Longrightarrow> rd g = (Inr v, g\<lparr>pos := pos g + n\<rparr>)"
  shows "reads_as rd f v f'"
  unfolding reads_as_def using assms by blast

lemma reads_as_bind:
  assumes r1: "reads_as rd1 f v f1" and r2: "reads_as (rd2 v) f1 w f2"
    and rd: "\<And>g. rd g = (case rd1 g of (Inl e, g') \<Rightarrow> (Inl e, g') | (Inr a, g') \<Rightarrow> rd2 a g')"
  shows "reads_as rd f w f2"
proof -
  from r1 obtain n1 where n1: "f1 = f\<lparr>pos := pos f + n1\<rparr>" "length (next_bytes n1 f) = n1"
    "\<And>g. next_bytes n1 g = next_bytes n1 f \<Longrightarrow> rd1 g = (Inr v, g\<lparr>pos := pos g + n1\<rparr>)"
    unfolding reads_as_def by blast
  from r2 obtain n2 where n2: "f2 = f1\<lparr>pos := pos f1 + n2\<rparr>" "length (next_bytes n2 f1) = n2"
    "\<And>g. next_bytes n2 g = next_bytes n2 f1 \<Longrightarrow> rd2 v g = (Inr w, g\<lparr>pos := pos g + n2\<rparr>)"
    unfolding reads_as_def by blast
  show ?thesis
  proof (rule reads_asI [where n = "n1 + n2"])
    show "f2 = f\<lparr>pos := pos f + (n1 + n2)\<rparr>"
      by (simp add: n1(1) n2(1) add.assoc)
    show "length (next_bytes (n1 + n2) f) = n1 + n2"
      using n1(2) n2(2) by (simp add: next_bytes_add n1(1))
  next
    fix g
    assume eq: "next_bytes (n1 + n2) g = next_bytes (n1 + n2) f"
    from next_bytes_eq_split [OF eq] have e1: "next_bytes n1 g = next_bytes n1 f"
      and e2: "next_bytes n2 (g\<lparr>pos := pos g + n1\<rparr>) = next_bytes n2 f1"
      by (simp_all add: n1(1))
    from n1(3) [OF e1] n2(3) [OF e2] show "rd g = (Inr w, g\<lparr>pos := pos g + (n1 + n2)\<rparr>)"
      by (simp add: rd add.assoc)
  qed
qed

lemma reads_as_map:
  assumes r: "reads_as rd f v f'"
    and rd: "\<And>g. rd' g = (case rd g of (Inl e, g') \<Rightarrow> (Inl e, g') | (Inr a, g') \<Rightarrow> (Inr (h a), g'))"
  shows "reads_as rd' f (h v) f'"
  using r unfolding reads_as_def by (auto simp: rd)

lemma bm_read_prim_reads_as:
  assumes fm: "map_of typeNames t = Some fm" and ok: "bm_read fc t c e f = (Inr v, f')"
  shows "reads_as (bm_read fc t c e) f v f'"
proof (rule reads_asI [where n = "c * calcsize fm"])
  let ?n = "c * calcsize fm"
  from ok have len: "length (next_bytes ?n f) = ?n"
    by (auto simp: bm_read_prim [OF fm] file_read_def next_bytes_def Let_def split: if_splits)
  then show "length (next_bytes ?n f) = ?n" .
  from ok len show "f' = f\<lparr>pos := pos f + ?n\<rparr>"
    by (auto simp: bm_read_prim [OF fm] file_read_def next_bytes_def Let_def split: if_splits list.splits)
  fix g
  assume eq: "next_bytes ?n g = next_bytes ?n f"
  from ok len have "(case unpack fc (e = VInt ELFDATA2LSB) c fm (next_bytes ?n f) of
       [] \<Rightarrow> Inl IndexError | v # x \<Rightarrow> Inr v) = Inr v"
    by (auto simp: bm_read_prim [OF fm] file_read_def next_bytes_def Let_def split: if_splits list.splits)
  moreover from eq len have "length (next_bytes ?n g) = ?n" by simp
  ultimately show "bm_read fc t c e g = (Inr v, g\<lparr>pos := pos g + ?n\<rparr>)"
    using eq by (auto simp: bm_read_prim [OF fm] file_read_def next_bytes_def Let_def split: list.splits)
qed

lemma read_reads_as:
  "bm_read fc t c e f = (Inr v, f') \<Longrightarrow> reads_as (bm_read fc t c e) f v f'"
  "readStruct_loop fc sch e res f = (Inr m, f') \<Longrightarrow> reads_as (readStruct_loop fc sch e res) f m f'"
proof (induction fc t c e f and fc sch e res f arbitrary: v f' and m f'
    rule: bm_read_readStruct_loop.induct)
  case (1 fc typeName count endian f)
  show ?case
  proof (cases "typeName \<in> set schemes")
    case True
    with "1.prems" obtain sch where sch: "globals typeName = Some sch"
      by (auto simp: bm_read.simps split: option.splits)
    from "1.prems" True sch obtain m where m: "readStruct_loop fc sch endian [] f = (Inr m, f')"
      and v: "v = VDict m"
      by (auto simp: bm_read.simps split: prod.splits sum.splits)
    from "1.IH" [OF True sch m] have "reads_as (readStruct_loop fc sch endian []) f m f'" .
    then show ?thesis
      unfolding v
      by (rule reads_as_map) (simp add: bm_read.simps True sch)
  next
    case False
    with "1.prems" obtain fm where fm: "map_of typeNames typeName = Some fm"
      by (auto simp: bm_read.simps split: option.splits)
    show ?thesis by (rule bm_read_prim_reads_as [OF fm "1.prems"])
  qed
next
  case (2 fc endian res f)
  then show ?case
    by (auto intro!: reads_asI [where n = 0] simp: next_bytes_def)
next
  case (3 fc name typename count rest endian res f)
  from "3.prems" obtain v f1 where rd: "bm_read fc typename count endian f = (Inr v, f1)"
    and loop: "readStruct_loop fc rest endian (AList.update name v res) f1 = (Inr m, f')"
    by (auto split: prod.splits sum.splits)
  from "3.IH"(1) [OF rd] have r1: "reads_as (bm_read fc typename count endian) f v f1" .
  from "3.IH"(2) [OF rd [symmetric] refl loop]
  have r2: "reads_as (readStruct_loop fc rest endian (AList.update name v res)) f1 m f'" .
  show ?case
    by (rule reads_as_bind [where ?rd2.0 = "\<lambda>v. readStruct_loop fc rest endian (AList.update name v res)",
          OF r1 r2]) simp
qed


lemma reads_as_consumed:
  assumes "reads_as rd f v f'"
  obtains n where "f' = f\<lparr>pos := pos f + n\<rparr>" and "consumed f f' = next_bytes n f"
    and "length (consumed f f') = n"
  using assms unfolding reads_as_def consumed_def by auto

lemma consumed_trans:
  assumes "f1 = f\<lparr>pos := pos f + n1\<rparr>" and "f2 = f1\<lparr>pos := pos f1 + n2\<rparr>"
  shows "consumed f f2 = consumed f f1 @ consumed f1 f2"
  by (simp add: consumed_def assms next_bytes_add)

lemma rt_Elf_Ident: "rt_scheme Elf_Ident"
  by (simp add: rt_scheme_def Elf_Ident_def schemes_def typeNames_def)

lemma rt_Elf32_Ehdr: "rt_scheme Elf32_Ehdr"
  by (simp add: rt_scheme_def Elf32_Ehdr_def schemes_def typeNames_def)

lemma rt_Elf64_Ehdr: "rt_scheme Elf64_Ehdr"
  by (simp add: rt_scheme_def Elf64_Ehdr_def schemes_def typeNames_def)

lemma rt_globals:
  assumes "t \<in> set schemes" and "globals t = Some sch"
  shows "rt_scheme sch"
proof -
  from assms(1) have "t = ''Elf_Ident'' \<or> t = ''Elf32_Ehdr'' \<or> t = ''Elf64_Ehdr''"
    by (rule schemes_cases)
  then show ?thesis
  proof (elim disjE)
    assume "t = ''Elf_Ident''"
    with assms(2) show ?thesis by (simp add: globals_Elf_Ident rt_Elf_Ident)
  next
    assume "t = ''Elf32_Ehdr''"
    with assms(2) show ?thesis by (simp add: globals_Elf32_Ehdr rt_Elf32_Ehdr)
  next
    assume "t = ''Elf64_Ehdr''"
    with assms(2) show ?thesis by (simp add: globals_Elf64_Ehdr rt_Elf64_Ehdr)
  qed
qed

lemma bm_write_prim:
  assumes "map_of typeNames t = Some fm"
  shows "bm_write fc obj t c e f =
     (case pack fc (e = VInt ELFDATA2LSB) c fm obj of
        None \<Rightarrow> (Inl SchemaMismatch, f)
      | Some bs \<Rightarrow> (Inr (), file_write bs f))"
  using assms typeNames_not_scheme [OF assms] by (simp add: bm_write.simps)

lemma pack_unpacked:
  assumes fm: "map_of typeNames t = Some fm" and rt: "fm = Fmt_s \<or> (\<not> is_float fm \<and> c = 1)"
    and ok: "bm_read fc t c e f0 = (Inr v, f0')"
  shows "pack fc (e = VInt ELFDATA2LSB) c fm v = Some (consumed f0 f0')"
proof -
  let ?n = "c * calcsize fm"
  let ?data = "next_bytes ?n f0"
  from ok have len: "length ?data = ?n"
    by (auto simp: bm_read_prim [OF fm] file_read_def next_bytes_def Let_def split: if_splits)
  from ok len have f0': "f0' = f0\<lparr>pos := pos f0 + ?n\<rparr>"
    by (auto simp: bm_read_prim [OF fm] file_read_def next_bytes_def Let_def split: if_splits list.splits)
  then have cons: "consumed f0 f0' = ?data"
    by (simp add: consumed_def)
  from ok len obtain vs where un: "unpack fc (e = VInt ELFDATA2LSB) c fm ?data = v # vs"
    by (auto simp: bm_read_prim [OF fm] file_read_def next_bytes_def Let_def split: if_splits list.splits)
  show ?thesis
  proof (cases "fm = Fmt_s")
    case True
    with un have "v = VBytes ?data" by (simp add: unpack_def)
    with True len show ?thesis by (simp add: pack_def cons)
  next
    case False
    with rt have nf: "\<not> is_float fm" and c: "c = 1" by simp_all
    let ?d = "next_bytes (calcsize fm) f0"
    from c have d: "?data = ?d" by simp
    from len c have len1: "length ?d = calcsize fm" by simp
    from un False c have v: "v = VInt (unpack_int (is_signed fm) (e = VInt ELFDATA2LSB) ?d)"
      by (simp add: unpack_def unpack1_def nf len1)
    have "pack_int (is_signed fm) (e = VInt ELFDATA2LSB) (length ?d)
        (unpack_int (is_signed fm) (e = VInt ELFDATA2LSB) ?d) = Some ?d"
      by (rule pack_int_unpack_int) (simp only: len1 calcsize_pos)
    then have "pack_int (is_signed fm) (e = VInt ELFDATA2LSB) (calcsize fm)
        (unpack_int (is_signed fm) (e = VInt ELFDATA2LSB) ?d) = Some ?d"
      by (simp only: len1)
    then show ?thesis
      using False nf by (simp add: pack_def pack1_def cons c v)
  qed
qed

lemma write_back:
  "bm_read fc t c e f0 = (Inr v, f0') \<Longrightarrow> rt_field (name, (t, c)) \<Longrightarrow>
     bm_write fc v t c e f = (Inr (), file_write (consumed f0 f0') f)"
  "readStruct_loop fc sch e res f0 = (Inr m, f0') \<Longrightarrow> rt_scheme sch \<Longrightarrow>
     (\<And>k. k \<in> fst ` set sch \<Longrightarrow> map_of S k = map_of m k) \<Longrightarrow>
     writeStruct fc (VDict S) sch e f = (Inr (), file_write (consumed f0 f0') f)"
proof (induction fc t c e f0 and fc sch e res f0 arbitrary: v f0' f name and m f0' f S
    rule: bm_read_readStruct_loop.induct)
  case (1 fc typeName count endian f0)
  show ?case
  proof (cases "typeName \<in> set schemes")
    case True
    with "1.prems"(1) obtain sch where sch: "globals typeName = Some sch"
      by (auto simp: bm_read.simps split: option.splits)
    from "1.prems"(1) True sch obtain m where m: "readStruct_loop fc sch endian [] f0 = (Inr m, f0')"
      and v: "v = VDict m"
      by (auto simp: bm_read.simps split: prod.splits sum.splits)
    from "1.IH" [OF True sch m rt_globals [OF True sch], of m f]
    have "writeStruct fc (VDict m) sch endian f = (Inr (), file_write (consumed f0 f0') f)"
      by simp
    with True sch v show ?thesis by (simp add: bm_write.simps)
  next
    case False
    with "1.prems"(1) obtain fm where fm: "map_of typeNames typeName = Some fm"
      by (auto simp: bm_read.simps split: option.splits)
    from "1.prems"(2) False fm have rt: "fm = Fmt_s \<or> (\<not> is_float fm \<and> count = 1)"
      by simp
    from pack_unpacked [OF fm rt "1.prems"(1)] show ?thesis
      by (simp add: bm_write_prim [OF fm])
  qed
next
  case (2 fc endian res f0)
  then show ?case
    by (simp add: consumed_def next_bytes_def file_write_def)
next
  case (3 fc name' typename count rest endian res f0)
  from "3.prems"(1) obtain v f1 where rd: "bm_read fc typename count endian f0 = (Inr v, f1)"
    and loop: "readStruct_loop fc rest endian (AList.update name' v res) f1 = (Inr m, f0')"
    by (auto split: prod.splits sum.splits)
  from "3.prems"(2) have rtf: "rt_field (name', (typename, count))" and rts: "rt_scheme rest"
    and fresh: "name' \<notin> fst ` set rest"
    by (auto simp: rt_scheme_def)
  from readStruct_loop_other_keys [OF loop fresh] have "map_of m name' = Some v"
    by (simp add: update_conv')
  with "3.prems"(3) [of name'] have get: "getitem (VDict S) name' = Inr v"
    by simp
  from "3.IH"(1) [OF rd rtf, of f]
  have w1: "bm_write fc v typename count endian f = (Inr (), file_write (consumed f0 f1) f)" .
  have "writeStruct fc (VDict S) rest endian (file_write (consumed f0 f1) f)
      = (Inr (), file_write (consumed f1 f0') (file_write (consumed f0 f1) f))"
    by (rule "3.IH"(2) [OF rd [symmetric] refl loop rts]) (simp add: "3.prems"(3))
  moreover
  from read_reads_as(1) [OF rd] obtain n1 where n1: "f1 = f0\<lparr>pos := pos f0 + n1\<rparr>"
    by (rule reads_as_consumed)
  from read_reads_as(2) [OF loop] obtain n2 where n2: "f0' = f1\<lparr>pos := pos f1 + n2\<rparr>"
    by (rule reads_as_consumed)
  have "consumed f0 f0' = consumed f0 f1 @ consumed f1 f0'"
    by (rule consumed_trans [OF n1 n2])
  ultimately show ?case
    using get w1 by (simp add: file_write_append)
qed




section \<open>Properties of serialising\<close>

text \<open>The steps of \<open>serialize\<close> on an ELF32 model.\<close>

lemma serialize_class32:
  assumes "dict_get (e_ident self) ''EI_CLASS'' = Inr (VInt ELFCLASS32)"
    and "dict_get (e_ident self) ''EI_DATA'' = Inr endian"
    and "writeStruct fc (VDict (ehdr self)) Elf32_Ehdr (VInt ELFDATA2LSB) f = (Inr (), f1)"
    and "dict_get (ehdr self) ''e_phoff'' = Inr (VInt phoff)" and "0 \<le> phoff"
    and "dict_get (ehdr self) ''e_phnum'' = Inr (VInt phnum)"
    and "write_entries fc (phdrs self) Elf32_Phdr endian 0 (nat phnum) (f1\<lparr>pos := nat phoff\<rparr>)
          = (Inr (), f2)"
    and "dict_get (ehdr self) ''e_shoff'' = Inr (VInt shoff)" and "0 \<le> shoff"
    and "dict_get (ehdr self) ''e_shnum'' = Inr (VInt shnum)"
    and "write_entries fc (shdrs self) Elf32_Shdr endian 0 (nat shnum) (f2\<lparr>pos := nat shoff\<rparr>)
          = (Inr (), f3)"
  shows "serialize fc self f = (Inr (), f3\<lparr>pos := 0\<rparr>)"
  unfolding serialize_def
  using assms(5,9)
  by (simp add: bindE_def liftE_def returnE_def file_seek_def assms(1,2,3,4,6,7,8,10,11))


lemma rt_Elf32_Shdr: "rt_scheme Elf32_Shdr"
  by (simp add: rt_scheme_def Elf32_Shdr_def schemes_def typeNames_def)

lemma ident_model_gets:
  "dict_get (ident_model d) ''EI_CLASS'' = Inr (VInt ELFCLASS32)"
  "dict_get (ident_model d) ''EI_DATA'' = Inr (VInt d)"
  by (simp_all add: ident_model_def dict_get_def ELFCLASS32_def)

lemma ehdr_model_gets:
  "dict_get (ehdr_model d phoff phnum shoff shnum) ''e_phoff'' = Inr (VInt phoff)"
  "dict_get (ehdr_model d phoff phnum shoff shnum) ''e_phnum'' = Inr (VInt phnum)"
  "dict_get (ehdr_model d phoff phnum shoff shnum) ''e_shoff'' = Inr (VInt shoff)"
  "dict_get (ehdr_model d phoff phnum shoff shnum) ''e_shnum'' = Inr (VInt shnum)"
  by (simp_all add: ehdr_model_def dict_get_def)

text \<open>
  Claim C1 at a valid little-endian file (the header, then one section header of zero
  bytes at offset 52). Parsing leaves the cursor at 92, the end of the section header
  table; \<open>serialize\<close> writes the file header there, not at offset 0, so that the
  emitted buffer is the input followed by a copy of its 52 header bytes.
\<close>

theorem emit_appends_header_example:
  "parse_emit no_floats one_section = Inr (one_section @ ident32 1 @ le_fields 0 0 52 1)
   \<and> length one_section = 92
   \<and> one_section @ ident32 1 @ le_fields 0 0 52 1 \<noteq> one_section"
proof -
  define M :: "unit elf" where
    "M = \<lparr>e_ident = ident_model 1, ehdr = ehdr_model 1 0 0 52 1, phdrs = [], shdrs = [shdr_model 0]\<rparr>"
  define B' where "B' = one_section @ ident32 1 @ le_fields 0 0 52 1"
  have p: "ELF no_floats one_section = (Inr M, \<lparr>buf = one_section, pos = 92\<rparr>)"
    unfolding M_def by code_simp
  have rh: "readStruct_loop no_floats Elf32_Ehdr (VInt ELFDATA2LSB) [] \<lparr>buf = one_section, pos = 0\<rparr>
      = (Inr (ehdr_model 1 0 0 52 1), \<lparr>buf = one_section, pos = 52\<rparr>)"
    by code_simp
  have c1: "file_write (consumed \<lparr>buf = one_section, pos = 0\<rparr> \<lparr>buf = one_section, pos = 52\<rparr>)
        \<lparr>buf = one_section, pos = 92\<rparr> = \<lparr>buf = B', pos = 144\<rparr>"
    unfolding B'_def by code_simp
  have w1: "writeStruct no_floats (VDict (ehdr M)) Elf32_Ehdr (VInt ELFDATA2LSB)
        \<lparr>buf = one_section, pos = 92\<rparr> = (Inr (), \<lparr>buf = B', pos = 144\<rparr>)"
    using write_back(2) [OF rh rt_Elf32_Ehdr, of "ehdr_model 1 0 0 52 1" "\<lparr>buf = one_section, pos = 92\<rparr>"]
    by (simp add: c1 M_def)
  have rs: "readStruct_loop no_floats Elf32_Shdr (VInt 1) [] \<lparr>buf = one_section, pos = 52\<rparr>
      = (Inr (shdr_model 0), \<lparr>buf = one_section, pos = 92\<rparr>)"
    by code_simp
  have c2: "file_write (consumed \<lparr>buf = one_section, pos = 52\<rparr> \<lparr>buf = one_section, pos = 92\<rparr>)
        \<lparr>buf = B', pos = 52\<rparr> = \<lparr>buf = B', pos = 92\<rparr>"
    unfolding B'_def by code_simp
  have w2: "writeStruct no_floats (VDict (shdr_model 0)) Elf32_Shdr (VInt 1) \<lparr>buf = B', pos = 52\<rparr>
      = (Inr (), \<lparr>buf = B', pos = 92\<rparr>)"
    using write_back(2) [OF rs rt_Elf32_Shdr, of "shdr_model 0" "\<lparr>buf = B', pos = 52\<rparr>"]
    by (simp add: c2)
  have e1: "write_entries no_floats (phdrs M) Elf32_Phdr (VInt 1) 0 (nat 0)
        (\<lparr>buf = B', pos = 144\<rparr>\<lparr>pos := nat 0\<rparr>) = (Inr (), \<lparr>buf = B', pos = 0\<rparr>)"
    by simp
  have e2: "write_entries no_floats (shdrs M) Elf32_Shdr (VInt 1) 0 (nat 1)
        (\<lparr>buf = B', pos = 0\<rparr>\<lparr>pos := nat 52\<rparr>) = (Inr (), \<lparr>buf = B', pos = 92\<rparr>)"
    by (simp add: M_def w2)
  have g: "dict_get (e_ident M) ''EI_CLASS'' = Inr (VInt ELFCLASS32)"
    "dict_get (e_ident M) ''EI_DATA'' = Inr (VInt 1)"
    "dict_get (ehdr M) ''e_phoff'' = Inr (VInt 0)" "dict_get (ehdr M) ''e_phnum'' = Inr (VInt 0)"
    "dict_get (ehdr M) ''e_shoff'' = Inr (VInt 52)" "dict_get (ehdr M) ''e_shnum'' = Inr (VInt 1)"
    by (simp_all add: M_def ident_model_gets ehdr_model_gets)
  have "serialize no_floats M \<lparr>buf = one_section, pos = 92\<rparr> = (Inr (), \<lparr>buf = B', pos = 92\<rparr>\<lparr>pos := 0\<rparr>)"
    by (rule serialize_class32 [OF g(1) g(2) w1 g(3) _ g(4) e1 g(5) _ g(6) e2]) simp_all
  then have "parse_emit no_floats one_section = Inr B'"
    by (simp add: parse_emit_def p ELF_read_def bindE_def)
  moreover have "length one_section = 92"
    by (simp add: one_section_def ident32_def le_fields_def)
  moreover have "B' \<noteq> one_section"
    by (simp add: B'_def ident32_def)
  ultimately show ?thesis
    by (simp add: B'_def)
qed

text \<open>
  Claim C2 at a valid big-endian file (the header alone, no tables). The byte order
  captured by the parse is \<open>ELFDATA2MSB\<close>, and \<open>serialize\<close> writes the multi-byte
  fields of the file header little-endian.
\<close>

theorem emit_header_little_endian_example:
  "parse_emit no_floats (ident32 2 @ be_fields 0 0 0 0) = Inr (ident32 2 @ le_fields 0 0 0 0)
   \<and> dict_get (ident_model 2) ''EI_DATA'' = Inr (VInt ELFDATA2MSB)
   \<and> ident32 2 @ le_fields 0 0 0 0 \<noteq> ident32 2 @ be_fields 0 0 0 0"
proof -
  define M :: "unit elf" where
    "M = \<lparr>e_ident = ident_model 2, ehdr = ehdr_model 2 0 0 0 0, phdrs = [], shdrs = []\<rparr>"
  define B where "B = ident32 2 @ be_fields 0 0 0 0"
  define B' where "B' = ident32 2 @ le_fields 0 0 0 0"
  have p: "ELF no_floats B = (Inr M, \<lparr>buf = B, pos = 0\<rparr>)"
    unfolding M_def B_def by code_simp
  have rh: "readStruct_loop no_floats Elf32_Ehdr (VInt ELFDATA2LSB) [] \<lparr>buf = B', pos = 0\<rparr>
      = (Inr (ehdr_model 2 0 0 0 0), \<lparr>buf = B', pos = 52\<rparr>)"
    unfolding B'_def by code_simp
  have c1: "file_write (consumed \<lparr>buf = B', pos = 0\<rparr> \<lparr>buf = B', pos = 52\<rparr>)
        \<lparr>buf = B, pos = 0\<rparr> = \<lparr>buf = B', pos = 52\<rparr>"
    unfolding B_def B'_def by code_simp
  have w1: "writeStruct no_floats (VDict (ehdr M)) Elf32_Ehdr (VInt ELFDATA2LSB)
        \<lparr>buf = B, pos = 0\<rparr> = (Inr (), \<lparr>buf = B', pos = 52\<rparr>)"
    using write_back(2) [OF rh rt_Elf32_Ehdr, of "ehdr_model 2 0 0 0 0" "\<lparr>buf = B, pos = 0\<rparr>"]
    by (simp add: c1 M_def)
  have e1: "write_entries no_floats (phdrs M) Elf32_Phdr (VInt 2) 0 (nat 0)
        (\<lparr>buf = B', pos = 52\<rparr>\<lparr>pos := nat 0\<rparr>) = (Inr (), \<lparr>buf = B', pos = 0\<rparr>)"
    by simp
  have e2: "write_entries no_floats (shdrs M) Elf32_Shdr (VInt 2) 0 (nat 0)
        (\<lparr>buf = B', pos = 0\<rparr>\<lparr>pos := nat 0\<rparr>) = (Inr (), \<lparr>buf = B', pos = 0\<rparr>)"
    by simp
  have g: "dict_get (e_ident M) ''EI_CLASS'' = Inr (VInt ELFCLASS32)"
    "dict_get (e_ident M) ''EI_DATA'' = Inr (VInt 2)"
    "dict_get (ehdr M) ''e_phoff'' = Inr (VInt 0)" "dict_get (ehdr M) ''e_phnum'' = Inr (VInt 0)"
    "dict_get (ehdr M) ''e_shoff'' = Inr (VInt 0)" "dict_get (ehdr M) ''e_shnum'' = Inr (VInt 0)"
    by (simp_all add: M_def ident_model_gets ehdr_model_gets)
  have "serialize no_floats M \<lparr>buf = B, pos = 0\<rparr> = (Inr (), \<lparr>buf = B', pos = 0\<rparr>\<lparr>pos := 0\<rparr>)"
    by (rule serialize_class32 [OF g(1) g(2) w1 g(3) _ g(4) e1 g(5) _ g(6) e2]) simp_all
  then have "parse_emit no_floats B = Inr B'"
    by (simp add: parse_emit_def p ELF_read_def bindE_def)
  moreover have "dict_get (ident_model 2) ''EI_DATA'' = Inr (VInt ELFDATA2MSB)"
    by (simp add: ident_model_gets ELFDATA2MSB_def)
  moreover have "B' \<noteq> B"
    by (simp add: B_def B'_def le_fields_def be_fields_def)
  ultimately show ?thesis
    by (simp add: B_def B'_def)
qed

end
